theory Spec2Isabelle
  imports Complex_Main "HOL-Library.Word"
begin

section \<open>Machine types\<close>

text \<open>
  The program (\<^verbatim>\<open>EstimatePlaylistSize/MonteCarlo.cc\<close>) computes with \<^verbatim>\<open>unsigned\<close>
  (32 bits, arithmetic modulo \<open>2 ^ 32\<close>), with \<^verbatim>\<open>double\<close>, and with
  \<^verbatim>\<open>std::vector<unsigned>\<close>.

  A run of one of its functions ends in one of three ways: it returns a value, it stops
  in a fault, or it does not end. The result type is \<open>(fault + 'a) option\<close>:
  \<open>Some (Inr v)\<close> is the value \<open>v\<close>, \<open>Some (Inl e)\<close> the fault \<open>e\<close>, and
  \<open>None\<close> a loop that runs forever.
\<close>

type_synonym u32 = "32 word"

datatype fault =
    AssertionFailed      \<comment> \<open>\<^verbatim>\<open>assert\<close> with a false condition\<close>
  | IndexOutOfRange      \<comment> \<open>\<^verbatim>\<open>operator[]\<close> past the end of a vector\<close>
  | ConversionOutOfRange \<comment> \<open>a \<^verbatim>\<open>double\<close> converted to \<^verbatim>\<open>unsigned\<close> that does not fit\<close>

subsection \<open>Doubles\<close>

text \<open>
  A \<^verbatim>\<open>double\<close> is a finite value, an infinity or a NaN. Finite arithmetic is exact
  here: rounding, overflow to infinity and the sign of zero are left out, the special
  values follow IEEE 754. Every integer the program stores in a double and converts back
  is below \<open>2 ^ 53\<close> whenever the conversion is defined, so the integer arithmetic of
  the program is the machine's.
\<close>

datatype double = Fin real | PInf | NInf | NaN

fun d_neg :: "double \<Rightarrow> double" where
  "d_neg (Fin x) = Fin (- x)"
| "d_neg PInf = NInf"
| "d_neg NInf = PInf"
| "d_neg NaN = NaN"

fun d_add :: "double \<Rightarrow> double \<Rightarrow> double" where
  "d_add (Fin x) (Fin y) = Fin (x + y)"
| "d_add (Fin x) PInf = PInf"
| "d_add (Fin x) NInf = NInf"
| "d_add PInf (Fin y) = PInf"
| "d_add PInf PInf = PInf"
| "d_add PInf NInf = NaN"
| "d_add NInf (Fin y) = NInf"
| "d_add NInf PInf = NaN"
| "d_add NInf NInf = NInf"
| "d_add NaN b = NaN"
| "d_add a NaN = NaN"

definition d_sub :: "double \<Rightarrow> double \<Rightarrow> double" where
  "d_sub a b = d_add a (d_neg b)"

fun d_mul :: "double \<Rightarrow> double \<Rightarrow> double" where
  "d_mul (Fin x) (Fin y) = Fin (x * y)"
| "d_mul (Fin x) PInf = (if x = 0 then NaN else if 0 < x then PInf else NInf)"
| "d_mul (Fin x) NInf = (if x = 0 then NaN else if 0 < x then NInf else PInf)"
| "d_mul PInf (Fin y) = (if y = 0 then NaN else if 0 < y then PInf else NInf)"
| "d_mul NInf (Fin y) = (if y = 0 then NaN else if 0 < y then NInf else PInf)"
| "d_mul PInf PInf = PInf"
| "d_mul PInf NInf = NInf"
| "d_mul NInf PInf = NInf"
| "d_mul NInf NInf = PInf"
| "d_mul NaN b = NaN"
| "d_mul a NaN = NaN"

fun d_div :: "double \<Rightarrow> double \<Rightarrow> double" where
  "d_div (Fin x) (Fin y) =
     (if y = 0 then (if x = 0 then NaN else if 0 < x then PInf else NInf)
      else Fin (x / y))"
| "d_div (Fin x) PInf = Fin 0"
| "d_div (Fin x) NInf = Fin 0"
| "d_div PInf (Fin y) = (if 0 \<le> y then PInf else NInf)"
| "d_div NInf (Fin y) = (if 0 \<le> y then NInf else PInf)"
| "d_div PInf PInf = NaN"
| "d_div PInf NInf = NaN"
| "d_div NInf PInf = NaN"
| "d_div NInf NInf = NaN"
| "d_div NaN b = NaN"
| "d_div a NaN = NaN"

text \<open>The comparison \<^verbatim>\<open>a < b\<close>: false as soon as one side is a NaN.\<close>

fun d_less :: "double \<Rightarrow> double \<Rightarrow> bool" where
  "d_less (Fin x) (Fin y) = (x < y)"
| "d_less (Fin x) PInf = True"
| "d_less NInf (Fin y) = True"
| "d_less NInf PInf = True"
| "d_less a b = False"

fun fabs :: "double \<Rightarrow> double" where
  "fabs (Fin x) = Fin \<bar>x\<bar>"
| "fabs PInf = PInf"
| "fabs NInf = PInf"
| "fabs NaN = NaN"

text \<open>
  The two functions of the C library. \<^verbatim>\<open>log\<close> is the natural logarithm, with
  \<^verbatim>\<open>log(0) = -inf\<close>. \<^verbatim>\<open>lgamma\<close> is \<open>ln \<bar>\<Gamma> x\<bar>\<close>, with a pole at every integer
  \<open>x \<le> 0\<close>, where it returns \<^verbatim>\<open>+inf\<close>. At a positive integer \<open>\<Gamma> x = (x - 1)!\<close>;
  elsewhere the value is the limit of Gauss's product. The program calls \<^verbatim>\<open>lgamma\<close> at
  integers only.
\<close>

fun log :: "double \<Rightarrow> double" where
  "log (Fin x) = (if 0 < x then Fin (ln x) else if x = 0 then NInf else NaN)"
| "log PInf = PInf"
| "log NInf = NaN"
| "log NaN = NaN"

definition ln_abs_Gamma :: "real \<Rightarrow> real" where
  "ln_abs_Gamma x =
     (if x \<in> \<nat> \<and> 1 \<le> x then ln (fact (nat \<lfloor>x\<rfloor> - 1))
      else lim (\<lambda>n. ln (fact n) + x * ln (real n) - (\<Sum>k\<le>n. ln \<bar>x + real k\<bar>)))"

fun lgamma :: "double \<Rightarrow> double" where
  "lgamma (Fin x) = (if x \<in> \<int> \<and> x \<le> 0 then PInf else Fin (ln_abs_Gamma x))"
| "lgamma PInf = PInf"
| "lgamma NInf = PInf"
| "lgamma NaN = NaN"

text \<open>
  Conversions. \<^verbatim>\<open>unsigned\<close> to \<^verbatim>\<open>double\<close> is exact. \<^verbatim>\<open>double\<close> to \<^verbatim>\<open>unsigned\<close>
  truncates towards zero, and C++ leaves it undefined when the truncated value is not
  one of \<open>0 .. 2 ^ 32 - 1\<close>: that is the fault \<open>ConversionOutOfRange\<close>.
\<close>

definition of_u32 :: "u32 \<Rightarrow> double" where
  "of_u32 w = Fin (real (unat w))"

fun to_u32 :: "double \<Rightarrow> fault + u32" where
  "to_u32 (Fin x) =
     (if - 1 < x \<and> x < 2 ^ 32 then Inr (word_of_int (if x < 0 then \<lceil>x\<rceil> else \<lfloor>x\<rfloor>))
      else Inl ConversionOutOfRange)"
| "to_u32 PInf = Inl ConversionOutOfRange"
| "to_u32 NInf = Inl ConversionOutOfRange"
| "to_u32 NaN = Inl ConversionOutOfRange"

subsection \<open>Vectors\<close>

text \<open>
  A \<^verbatim>\<open>std::vector<unsigned>\<close> is a list. \<^verbatim>\<open>operator[]\<close> past the end is undefined
  in C++: here it is the fault \<open>IndexOutOfRange\<close>. \<^verbatim>\<open>resize\<close> cuts the vector or
  fills it with zeros; memory is not bounded, so it always succeeds.
\<close>

definition vec_at :: "u32 list \<Rightarrow> nat \<Rightarrow> fault + u32" where
  "vec_at v i = (if i < length v then Inr (v ! i) else Inl IndexOutOfRange)"

definition vec_incr :: "u32 list \<Rightarrow> nat \<Rightarrow> fault + u32 list" where
  "vec_incr v i = (if i < length v then Inr (v[i := v ! i + 1]) else Inl IndexOutOfRange)"

definition vec_decr :: "u32 list \<Rightarrow> nat \<Rightarrow> fault + u32 list" where
  "vec_decr v i = (if i < length v then Inr (v[i := v ! i - 1]) else Inl IndexOutOfRange)"

definition vec_resize :: "u32 list \<Rightarrow> nat \<Rightarrow> u32 list" where
  "vec_resize v n = take n v @ replicate (n - length v) 0"

section \<open>The probability of a profile\<close>

text \<open>
  \<^verbatim>\<open>calculate_log_probability\<close>. The state of its loop is the triple of the
  accumulators \<open>(num_unique, num_draws, log_denom)\<close>. The loop counter \<open>i\<close> is an
  \<^verbatim>\<open>unsigned\<close> compared with \<^verbatim>\<open>dd.size()\<close>, so on a vector of \<open>2 ^ 32 - 1\<close>
  elements or more it wraps to 0 and the loop does not end by its condition. \<open>dd_i\<close>
  is a double: \<^verbatim>\<open>num_unique += dd_i\<close> adds in double and converts the sum back to
  \<^verbatim>\<open>unsigned\<close>. The \<^verbatim>\<open>assert\<close> is compiled in (\<^verbatim>\<open>NDEBUG\<close> is not defined in the
  source).
\<close>

type_synonym clp_state = "u32 \<times> u32 \<times> double"

fun clp_body :: "u32 list \<Rightarrow> u32 \<Rightarrow> clp_state \<Rightarrow> fault + clp_state" where
  "clp_body dd i (num_unique, num_draws, log_denom) =
     (case vec_at dd (unat (i - 1)) of
        Inl e \<Rightarrow> Inl e
      | Inr x \<Rightarrow>
          (let dd_i = of_u32 x in
           case to_u32 (d_add (of_u32 num_unique) dd_i) of
             Inl e \<Rightarrow> Inl e
           | Inr num_unique' \<Rightarrow>
               (case to_u32 (d_add (of_u32 num_draws) (d_mul dd_i (of_u32 i))) of
                  Inl e \<Rightarrow> Inl e
                | Inr num_draws' \<Rightarrow>
                    Inr (num_unique', num_draws',
                         d_add log_denom
                           (d_add (lgamma (d_add (Fin 1) dd_i))
                              (d_mul dd_i (lgamma (of_u32 (1 + i)))))))))"

partial_function (option) clp_loop :: "u32 list \<Rightarrow> u32 \<Rightarrow> clp_state \<Rightarrow> (fault + clp_state) option" where
  "clp_loop dd i st =
     (if unat i \<le> length dd then
        (case clp_body dd i st of
           Inl e \<Rightarrow> Some (Inl e)
         | Inr st' \<Rightarrow> clp_loop dd (i + 1) st')
      else Some (Inr st))"

definition calculate_log_probability :: "u32 list \<Rightarrow> u32 \<Rightarrow> (fault + double) option" where
  "calculate_log_probability dd num_balls =
     (case clp_loop dd 1 (0, 0, Fin 0) of
        None \<Rightarrow> None
      | Some (Inl e) \<Rightarrow> Some (Inl e)
      | Some (Inr (num_unique, num_draws, log_denom)) \<Rightarrow>
          (if num_unique \<le> num_balls then
             Some (Inr
               (d_sub
                 (d_sub
                   (d_add
                     (d_sub (lgamma (of_u32 (1 + num_draws))) log_denom)
                     (lgamma (of_u32 (1 + num_balls))))
                   (lgamma (of_u32 (1 + num_balls - num_unique))))
                 (d_mul (of_u32 num_draws) (log (of_u32 num_balls)))))
           else Some (Inl AssertionFailed)))"

section \<open>The sampler\<close>

text \<open>
  \<^verbatim>\<open>BallDrawer\<close> holds a \<^verbatim>\<open>std::mt19937\<close> and a
  \<^verbatim>\<open>std::uniform_int_distribution<unsigned>\<close>. Both belong to the C++ library, so
  they are a parameter of the model: \<open>mt19937 seed\<close> is the state of a generator
  built from a seed, and \<open>uniform_int_distribution (a, b) g\<close> is the number drawn
  from the generator in state \<open>g\<close> together with the generator's next state. The
  distribution's contract (the number lies in \<open>a .. b\<close>) is \<open>in_range\<close>.
\<close>

record 'g random_lib =
  mt19937 :: "u32 \<Rightarrow> 'g"
  uniform_int_distribution :: "u32 \<times> u32 \<Rightarrow> 'g \<Rightarrow> u32 \<times> 'g"

definition in_range :: "'g random_lib \<Rightarrow> bool" where
  "in_range lib =
     (\<forall>a b g. a \<le> b \<longrightarrow>
        a \<le> fst (uniform_int_distribution lib (a, b) g) \<and>
        fst (uniform_int_distribution lib (a, b) g) \<le> b)"

record 'g BallDrawer =
  rgen :: 'g
  distribution :: "u32 \<times> u32"

definition new_BallDrawer :: "'g random_lib \<Rightarrow> u32 \<Rightarrow> u32 \<Rightarrow> 'g BallDrawer" where
  "new_BallDrawer lib num_balls seed =
     \<lparr>rgen = mt19937 lib seed, distribution = (0, num_balls - 1)\<rparr>"

text \<open>
  The inner loop of \<^verbatim>\<open>draw_balls\<close>: the scan of the bins with the cumulative sum
  \<open>csum\<close> (\<^verbatim>\<open>sum\<close> in the source). It returns the value of \<open>bin\<close> at the
  \<^verbatim>\<open>break\<close>, or at the end of the loop.
\<close>

partial_function (option) scan :: "u32 list \<Rightarrow> u32 \<Rightarrow> u32 \<Rightarrow> u32 \<Rightarrow> (fault + u32) option" where
  "scan dd ball bin csum =
     (if unat bin < length dd then
        (case vec_at dd (unat bin) of
           Inl e \<Rightarrow> Some (Inl e)
         | Inr x \<Rightarrow>
             (if ball < csum + x then Some (Inr bin)
              else scan dd ball (bin + 1) (csum + x)))
      else Some (Inr bin))"

text \<open>The rest of the body of the outer loop, from the scan to \<^verbatim>\<open>++dd[bin]\<close>.\<close>

definition select_bin :: "u32 list \<Rightarrow> u32 \<Rightarrow> fault + u32 list \<times> u32" where
  "select_bin dd bin =
     (if unat bin = length dd then Inr (dd, 0)
      else (case vec_decr dd (unat bin) of
              Inl e \<Rightarrow> Inl e
            | Inr dd' \<Rightarrow> Inr (dd', bin + 1)))"

definition add_ball :: "u32 list \<Rightarrow> u32 \<Rightarrow> fault + u32 list" where
  "add_ball dd bin =
     vec_incr (if unat bin = length dd then vec_resize dd (unat (bin + 1)) else dd) (unat bin)"

definition place_ball :: "u32 list \<Rightarrow> u32 \<Rightarrow> (fault + u32 list) option" where
  "place_ball dd ball =
     (case scan dd ball 0 0 of
        None \<Rightarrow> None
      | Some (Inl e) \<Rightarrow> Some (Inl e)
      | Some (Inr bin) \<Rightarrow>
          (case select_bin dd bin of
             Inl e \<Rightarrow> Some (Inl e)
           | Inr (dd', bin') \<Rightarrow> Some (add_ball dd' bin')))"

lemma unat_succ_less: "x < y \<Longrightarrow> unat (x + 1) = unat x + 1" for x y :: u32
proof -
  assume "x < y"
  then have "unat x < unat y"
    by (simp add: word_less_nat_alt)
  moreover have "unat y < 2 ^ 32"
    using unsigned_less [of y] by simp
  ultimately have "unat x + 1 < 2 ^ 32"
    by simp
  then show ?thesis
    by (simp add: unat_word_ariths)
qed

function draw_loop ::
  "'g random_lib \<Rightarrow> 'g BallDrawer \<Rightarrow> u32 list \<Rightarrow> u32 \<Rightarrow> u32 \<Rightarrow>
     (fault + u32 list \<times> 'g BallDrawer) option" where
  "draw_loop lib drawer dd draw num_draws =
     (if draw < num_draws then
        (case uniform_int_distribution lib (distribution drawer) (rgen drawer) of
           (ball, g) \<Rightarrow>
             (case place_ball dd ball of
                None \<Rightarrow> None
              | Some (Inl e) \<Rightarrow> Some (Inl e)
              | Some (Inr dd') \<Rightarrow>
                  draw_loop lib (drawer\<lparr>rgen := g\<rparr>) dd' (draw + 1) num_draws))
      else Some (Inr (dd, drawer)))"
  by pat_completeness auto
termination
proof (relation "measure (\<lambda>(lib, drawer, dd, draw, num_draws). unat num_draws - unat draw)")
  show "wf (measure (\<lambda>(lib, drawer, dd, draw, num_draws). unat num_draws - unat draw))"
    by simp
next
  fix lib :: "'g random_lib" and drawer :: "'g BallDrawer" and dd dd' :: "u32 list"
    and draw num_draws :: u32 and x ball g r s
  assume "draw < num_draws"
  then have "unat draw < unat num_draws"
    by (simp add: word_less_nat_alt)
  moreover from \<open>draw < num_draws\<close> have "unat (draw + 1) = unat draw + 1"
    by (rule unat_succ_less)
  ultimately show "((lib, drawer\<lparr>rgen := g\<rparr>, dd', draw + 1, num_draws),
      (lib, drawer, dd, draw, num_draws))
    \<in> measure (\<lambda>(lib, drawer, dd, draw, num_draws). unat num_draws - unat draw)"
    by simp
qed

declare draw_loop.simps [simp del]

text \<open>\<^verbatim>\<open>draw_balls\<close>: clear the vector, then draw \<open>num_draws\<close> times.\<close>

definition draw_balls ::
  "'g random_lib \<Rightarrow> 'g BallDrawer \<Rightarrow> u32 list \<Rightarrow> u32 \<Rightarrow>
     (fault + u32 list \<times> 'g BallDrawer) option" where
  "draw_balls lib drawer dd num_draws = draw_loop lib drawer [] 0 num_draws"

section \<open>The comparator\<close>

text \<open>
  \<^verbatim>\<open>monte_carlo_pvalue\<close>. Its first loop derives \<open>num_draws\<close> from the reference
  profile, with the counter and the conversions of \<^verbatim>\<open>calculate_log_probability\<close>.
\<close>

partial_function (option) pvalue_num_draws :: "u32 list \<Rightarrow> u32 \<Rightarrow> u32 \<Rightarrow> (fault + u32) option" where
  "pvalue_num_draws ref_dd i num_draws =
     (if unat i \<le> length ref_dd then
        (case vec_at ref_dd (unat (i - 1)) of
           Inl e \<Rightarrow> Some (Inl e)
         | Inr x \<Rightarrow>
             (case to_u32 (d_add (of_u32 num_draws) (d_mul (of_u32 x) (of_u32 i))) of
                Inl e \<Rightarrow> Some (Inl e)
              | Inr num_draws' \<Rightarrow> pvalue_num_draws ref_dd (i + 1) num_draws'))
      else Some (Inr num_draws))"

text \<open>
  What one trial adds to the score: \<open>0.5\<close> on a tie, \<open>1.0\<close> when the reference is
  the more probable of the two, and nothing otherwise.
\<close>

definition add_score :: "double \<Rightarrow> double \<Rightarrow> double" where
  "add_score score log_probability_difference =
     (if d_less (fabs log_probability_difference) (Fin (1 / 10 ^ 10)) then d_add score (Fin (1 / 2))
      else if d_less (Fin 0) log_probability_difference then d_add score (Fin 1)
      else score)"

function pvalue_loop ::
  "'g random_lib \<Rightarrow> u32 \<Rightarrow> double \<Rightarrow> u32 \<Rightarrow> 'g BallDrawer \<Rightarrow> u32 list \<Rightarrow> double \<Rightarrow> u32 \<Rightarrow> u32 \<Rightarrow>
     (fault + double) option" where
  "pvalue_loop lib num_balls ref_dd_log_probability num_draws drawer dd score rep num_repeats =
     (if rep < num_repeats then
        (case draw_balls lib drawer dd num_draws of
           None \<Rightarrow> None
         | Some (Inl e) \<Rightarrow> Some (Inl e)
         | Some (Inr (dd', drawer')) \<Rightarrow>
             (case calculate_log_probability dd' num_balls of
                None \<Rightarrow> None
              | Some (Inl e) \<Rightarrow> Some (Inl e)
              | Some (Inr dd_log_probability) \<Rightarrow>
                  pvalue_loop lib num_balls ref_dd_log_probability num_draws drawer' dd'
                    (add_score score (d_sub ref_dd_log_probability dd_log_probability))
                    (rep + 1) num_repeats))
      else Some (Inr score))"
  by pat_completeness auto
termination
proof (relation "measure (\<lambda>(lib, num_balls, ref, num_draws, drawer, dd, score, rep, num_repeats).
    unat num_repeats - unat rep)")
  show "wf (measure (\<lambda>(lib, num_balls, ref, num_draws, drawer, dd, score, rep, num_repeats).
    unat num_repeats - unat rep))"
    by simp
next
  fix lib :: "'g random_lib" and drawer drawer' :: "'g BallDrawer" and dd dd' :: "u32 list"
    and num_balls num_draws rep num_repeats :: u32 and ref score score' :: double
  assume "rep < num_repeats"
  then have "unat rep < unat num_repeats"
    by (simp add: word_less_nat_alt)
  moreover from \<open>rep < num_repeats\<close> have "unat (rep + 1) = unat rep + 1"
    by (rule unat_succ_less)
  ultimately show "((lib, num_balls, ref, num_draws, drawer', dd', score', rep + 1, num_repeats),
      (lib, num_balls, ref, num_draws, drawer, dd, score, rep, num_repeats))
    \<in> measure (\<lambda>(lib, num_balls, ref, num_draws, drawer, dd, score, rep, num_repeats).
        unat num_repeats - unat rep)"
    by simp
qed

declare pvalue_loop.simps [simp del]

definition monte_carlo_pvalue ::
  "'g random_lib \<Rightarrow> u32 list \<Rightarrow> u32 \<Rightarrow> u32 \<Rightarrow> u32 \<Rightarrow> (fault + double) option" where
  "monte_carlo_pvalue lib ref_dd num_balls num_repeats seed =
     (let drawer = new_BallDrawer lib num_balls seed in
      case calculate_log_probability ref_dd num_balls of
        None \<Rightarrow> None
      | Some (Inl e) \<Rightarrow> Some (Inl e)
      | Some (Inr ref_dd_log_probability) \<Rightarrow>
          (case pvalue_num_draws ref_dd 1 0 of
             None \<Rightarrow> None
           | Some (Inl e) \<Rightarrow> Some (Inl e)
           | Some (Inr num_draws) \<Rightarrow>
               (case pvalue_loop lib num_balls ref_dd_log_probability num_draws drawer
                       (vec_resize [] (unat num_draws)) (Fin 0) 0 num_repeats of
                  None \<Rightarrow> None
                | Some (Inl e) \<Rightarrow> Some (Inl e)
                | Some (Inr score) \<Rightarrow> Some (Inr (d_div score (of_u32 num_repeats))))))"





section \<open>What the specification says\<close>

text \<open>
  The quantities of the specification, over the natural numbers: the number \<open>U\<close> of
  distinct items of a profile, \<open>\<Sum>\<^sub>m dd[m-1]\<close>, and its number \<open>N\<close> of draws,
  \<open>\<Sum>\<^sub>m m \<sqdot> dd[m-1]\<close>.
\<close>

definition profile_unique :: "u32 list \<Rightarrow> nat" where
  "profile_unique dd = (\<Sum>m = 1..length dd. unat (dd ! (m - 1)))"

definition profile_draws :: "u32 list \<Rightarrow> nat" where
  "profile_draws dd = (\<Sum>m = 1..length dd. m * unat (dd ! (m - 1)))"

text \<open>
  The formula of the specification for the log probability, written with the
  specification's \<open>lgamma\<close> and \<open>log\<close> at the integers \<open>N\<close>, \<open>U\<close> and \<open>M\<close>:
  \<open>lgamma(1+N) - \<Sum>\<^sub>m [lgamma(1+dd[m-1]) + dd[m-1] \<sqdot> lgamma(1+m)]
     + lgamma(1+M) - lgamma(1+M-U) - N \<sqdot> log(M)\<close>.
\<close>

definition profile_term :: "u32 list \<Rightarrow> nat \<Rightarrow> double" where
  "profile_term dd m =
     d_add (lgamma (Fin (1 + real (unat (dd ! (m - 1))))))
       (d_mul (Fin (real (unat (dd ! (m - 1))))) (lgamma (Fin (1 + real m))))"

definition d_sum :: "double list \<Rightarrow> double" where
  "d_sum xs = foldl d_add (Fin 0) xs"

definition spec_log_probability :: "u32 list \<Rightarrow> nat \<Rightarrow> double" where
  "spec_log_probability dd M =
     d_sub
       (d_sub
         (d_add
           (d_sub (lgamma (Fin (1 + real (profile_draws dd))))
              (d_sum (map (profile_term dd) [1..<Suc (length dd)])))
           (lgamma (Fin (1 + real M))))
         (lgamma (Fin (1 + real M - real (profile_unique dd)))))
       (d_mul (Fin (real (profile_draws dd))) (log (Fin (real M))))"

text \<open>The sum \<open>\<Sum>\<^sub>i (k + i) \<sqdot> xs[i]\<close>, by recursion on the list.\<close>

fun weighted :: "nat \<Rightarrow> nat list \<Rightarrow> nat" where
  "weighted k [] = 0"
| "weighted k (x # xs) = k * x + weighted (k + 1) xs"

text \<open>
  The cumulative sum of the scan: \<open>cum dd k\<close> is \<open>dd[0] + \<dots> + dd[k-1]\<close>, the number
  of slots that belong to the groups below bin \<open>k\<close>.
\<close>

definition cum :: "u32 list \<Rightarrow> nat \<Rightarrow> nat" where
  "cum dd k = sum_list (map unat (take k dd))"

text \<open>
  The two updates of a draw. A draw that hits an item never drawn before adds one to
  \<open>dd[0]\<close>; a draw that hits an item of the group \<open>bin\<close> takes one from \<open>dd[bin]\<close>
  and adds one to \<open>dd[bin + 1]\<close>, on a profile one entry longer when \<open>bin\<close> was the
  last group. \<open>nat_move_up\<close> is the second update on the entries as natural numbers.
\<close>

definition new_item :: "u32 list \<Rightarrow> u32 list" where
  "new_item dd = (if dd = [] then [1] else dd[0 := dd ! 0 + 1])"

definition move_up :: "u32 list \<Rightarrow> nat \<Rightarrow> u32 list" where
  "move_up dd bin =
     (let dd1 = dd[bin := dd ! bin - 1];
          dd2 = (if Suc bin = length dd then dd1 @ [0] else dd1)
      in dd2[Suc bin := dd2 ! Suc bin + 1])"

definition nat_move_up :: "nat list \<Rightarrow> nat \<Rightarrow> nat list" where
  "nat_move_up ws b =
     (let ws1 = ws[b := ws ! b - 1];
          ws2 = (if Suc b = length ws then ws1 @ [0] else ws1)
      in ws2[Suc b := ws2 ! Suc b + 1])"

text \<open>
  The trials of the comparator: \<open>trials lib M N drawer ts drawer'\<close> holds when the
  list \<open>ts\<close> pairs, in order, the profiles that successive calls of \<^verbatim>\<open>draw_balls\<close>
  with \<open>N\<close> draws return on one sampler, started in the state \<open>drawer\<close> and left in
  the state \<open>drawer'\<close>, with their log probabilities for \<open>M\<close> items.
\<close>

inductive trials ::
  "'g random_lib \<Rightarrow> u32 \<Rightarrow> u32 \<Rightarrow> 'g BallDrawer \<Rightarrow> (u32 list \<times> double) list \<Rightarrow> 'g BallDrawer \<Rightarrow> bool"
  for lib :: "'g random_lib" and num_balls num_draws :: u32 where
  trials_done: "trials lib num_balls num_draws drawer [] drawer"
| trials_step:
    "draw_balls lib drawer buf num_draws = Some (Inr (dd, drawer')) \<Longrightarrow>
     calculate_log_probability dd num_balls = Some (Inr sim_log_p) \<Longrightarrow>
     trials lib num_balls num_draws drawer' ts drawer'' \<Longrightarrow>
     trials lib num_balls num_draws drawer ((dd, sim_log_p) # ts) drawer''"

text \<open>
  What a trial with log probability \<open>sim_log_p\<close> is worth against the reference:
  \<open>0.5\<close> within the tolerance \<open>1e-10\<close>, \<open>1\<close> when the difference is positive, and
  \<open>0\<close> otherwise.
\<close>

definition trial_score :: "double \<Rightarrow> double \<Rightarrow> real" where
  "trial_score ref_log_p sim_log_p =
     (if d_less (fabs (d_sub ref_log_p sim_log_p)) (Fin (1 / 10 ^ 10)) then 1 / 2
      else if d_less (Fin 0) (d_sub ref_log_p sim_log_p) then 1
      else 0)"


section \<open>An instance of the library\<close>

text \<open>
  A small generator to run the model on: the state is a 32-bit word, stepped by a
  linear congruence, and the number drawn is the state when it lies in \<open>a .. b\<close> and
  \<open>a\<close> otherwise.
\<close>

definition example_lib :: "u32 random_lib" where
  "example_lib =
     \<lparr>mt19937 = (\<lambda>seed. seed),
      uniform_int_distribution =
        (\<lambda>(a, b) g. (if a \<le> g \<and> g \<le> b then g else a, 1664525 * g + 1013904223))\<rparr>"


section \<open>Conversions and the loop of \<^verbatim>\<open>calculate_log_probability\<close>\<close>

lemma d_add_of_u32: "d_add (of_u32 a) (of_u32 b) = Fin (real (unat a + unat b))"
  by (simp add: of_u32_def)

lemma to_u32_nat:
  "to_u32 (Fin (real n)) = (if n < 2 ^ 32 then Inr (of_nat n) else Inl ConversionOutOfRange)"
proof -
  have "(real n < 2 ^ 32) = (n < 2 ^ 32)"
    by (metis of_nat_less_iff of_nat_numeral of_nat_power)
  moreover have "- 1 < real n" "\<not> real n < 0"
    by simp_all
  ultimately show ?thesis
    by simp
qed

lemma unat_of_nat32: "n < 2 ^ 32 \<Longrightarrow> unat (of_nat n :: u32) = n"
  by (simp add: unat_of_nat take_bit_nat_eq_self)

lemma unique_upto_le_draws_upto:
  "(\<Sum>m = 1..k. unat (dd ! (m - 1))) \<le> (\<Sum>m = 1..k. m * unat (dd ! (m - 1)))" for dd :: "u32 list"
  by (rule sum_mono) simp

lemma draws_upto_mono:
  "k \<le> n \<Longrightarrow> (\<Sum>m = 1..k. m * unat (dd ! (m - 1))) \<le> (\<Sum>m = 1..n. m * unat (dd ! (m - 1)))"
  for dd :: "u32 list"
  by (rule sum_mono2) auto

lemma clp_body_step:
  fixes dd :: "u32 list"
  assumes len: "length dd < 2 ^ 32 - 1" and k: "k < length dd"
    and N: "(\<Sum>m = 1..Suc k. m * unat (dd ! (m - 1))) < 2 ^ 32"
  shows "clp_body dd (of_nat (Suc k))
           (of_nat (\<Sum>m = 1..k. unat (dd ! (m - 1))),
            of_nat (\<Sum>m = 1..k. m * unat (dd ! (m - 1))),
            d_sum (map (profile_term dd) [1..<Suc k])) =
         Inr (of_nat (\<Sum>m = 1..Suc k. unat (dd ! (m - 1))),
              of_nat (\<Sum>m = 1..Suc k. m * unat (dd ! (m - 1))),
              d_sum (map (profile_term dd) [1..<Suc (Suc k)]))"
proof -
  let ?U = "\<lambda>k. \<Sum>m = 1..k. unat (dd ! (m - 1))"
  let ?N = "\<lambda>k. \<Sum>m = 1..k. m * unat (dd ! (m - 1))"
  let ?i = "of_nat (Suc k) :: u32"
  have i: "unat ?i = Suc k"
    using len k by (intro unat_of_nat32) simp
  have i1: "unat (?i - 1) = k"
    using i by (simp add: unat_minus_one unat_eq_zero [symmetric] del: of_nat_Suc)
  have i2: "unat (1 + ?i) = Suc (Suc k)"
    using i len k by (simp add: unat_word_ariths del: of_nat_Suc)
  have Nk: "?N k < 2 ^ 32"
    using N draws_upto_mono [where k = k and n = "Suc k" and dd = dd] by simp
  have Uk: "?U k < 2 ^ 32"
    using Nk unique_upto_le_draws_upto [where k = k and dd = dd] by simp
  have US: "?U (Suc k) < 2 ^ 32"
    using N unique_upto_le_draws_upto [where k = "Suc k" and dd = dd] by simp
  have at: "vec_at dd (unat (?i - 1)) = Inr (dd ! k)"
    using k by (simp add: vec_at_def i1 del: of_nat_Suc)
  have US_eq: "?U (Suc k) = ?U k + unat (dd ! k)" and NS_eq: "?N (Suc k) = ?N k + unat (dd ! k) * Suc k"
    by simp_all
  have nu: "to_u32 (d_add (of_u32 (of_nat (?U k))) (of_u32 (dd ! k))) = Inr (of_nat (?U (Suc k)))"
  proof -
    have "d_add (of_u32 (of_nat (?U k))) (of_u32 (dd ! k)) = Fin (real (?U (Suc k)))"
      by (simp only: d_add_of_u32 unat_of_nat32 [OF Uk] US_eq)
    then show ?thesis
      using US by (simp only: to_u32_nat if_True)
  qed
  have nd: "to_u32 (d_add (of_u32 (of_nat (?N k))) (d_mul (of_u32 (dd ! k)) (of_u32 ?i))) =
      Inr (of_nat (?N (Suc k)))"
  proof -
    have "d_add (of_u32 (of_nat (?N k))) (d_mul (of_u32 (dd ! k)) (of_u32 ?i)) =
        Fin (real (?N k) + real (unat (dd ! k)) * real (Suc k))"
      by (simp only: of_u32_def unat_of_nat32 [OF Nk] i d_mul.simps d_add.simps)
    also have "\<dots> = Fin (real (?N (Suc k)))"
      by (simp only: NS_eq of_nat_add of_nat_mult)
    finally show ?thesis
      using N by (simp only: to_u32_nat if_True)
  qed
  have ld: "d_add (d_sum (map (profile_term dd) [1..<Suc k]))
        (d_add (lgamma (d_add (Fin 1) (of_u32 (dd ! k))))
           (d_mul (of_u32 (dd ! k)) (lgamma (of_u32 (1 + ?i))))) =
      d_sum (map (profile_term dd) [1..<Suc (Suc k)])"
  proof -
    have "[1..<Suc (Suc k)] = [1..<Suc k] @ [Suc k]"
      by simp
    then have "d_sum (map (profile_term dd) [1..<Suc (Suc k)]) =
        d_add (d_sum (map (profile_term dd) [1..<Suc k])) (profile_term dd (Suc k))"
      by (simp only: d_sum_def map_append foldl_append list.map foldl.simps)
    moreover have "d_add (Fin 1) (of_u32 (dd ! k)) = Fin (1 + real (unat (dd ! k)))"
      by (simp only: of_u32_def d_add.simps)
    moreover have "of_u32 (1 + ?i) = Fin (1 + real (Suc k))"
      by (simp only: of_u32_def i2) simp
    moreover have "Suc k - 1 = k"
      by simp
    ultimately show ?thesis
      by (simp only: profile_term_def of_u32_def)
  qed
  show ?thesis
    by (simp only: clp_body.simps at sum.case Let_def nu nd ld)
qed


lemma clp_loop_run:
  fixes dd :: "u32 list"
  assumes len: "length dd < 2 ^ 32 - 1" and N: "profile_draws dd < 2 ^ 32"
  shows "k \<le> length dd \<Longrightarrow>
         clp_loop dd (of_nat (Suc k))
           (of_nat (\<Sum>m = 1..k. unat (dd ! (m - 1))),
            of_nat (\<Sum>m = 1..k. m * unat (dd ! (m - 1))),
            d_sum (map (profile_term dd) [1..<Suc k])) =
         Some (Inr (of_nat (profile_unique dd), of_nat (profile_draws dd),
                    d_sum (map (profile_term dd) [1..<Suc (length dd)])))"
proof (induction "length dd - k" arbitrary: k)
  case 0
  then have k: "k = length dd"
    by simp
  have "unat (of_nat (Suc k) :: u32) = Suc k"
    using len k by (intro unat_of_nat32) simp
  then have "\<not> unat (of_nat (Suc k) :: u32) \<le> length dd"
    using k by simp
  then show ?case
    by (subst clp_loop.simps) (simp only: if_False k profile_unique_def profile_draws_def)
next
  case (Suc n)
  then have k: "k < length dd" and n: "n = length dd - Suc k" and k': "Suc k \<le> length dd"
    by simp_all
  have i: "unat (of_nat (Suc k) :: u32) = Suc k"
    using len k by (intro unat_of_nat32) simp
  have "(\<Sum>m = 1..Suc k. m * unat (dd ! (m - 1))) \<le> profile_draws dd"
    unfolding profile_draws_def using k' by (rule draws_upto_mono)
  then have NS: "(\<Sum>m = 1..Suc k. m * unat (dd ! (m - 1))) < 2 ^ 32"
    using N by simp
  have next_i: "(of_nat (Suc k) :: u32) + 1 = of_nat (Suc (Suc k))"
    by simp
  show ?case
    apply (subst clp_loop.simps)
    apply (simp only: i k' if_True clp_body_step [OF len k NS] sum.case next_i)
    apply (rule Suc.hyps(1) [OF n k'])
    done
qed

lemma clp_loop_result:
  fixes dd :: "u32 list"
  assumes len: "length dd < 2 ^ 32 - 1" and N: "profile_draws dd < 2 ^ 32"
  shows "clp_loop dd 1 (0, 0, Fin 0) =
         Some (Inr (of_nat (profile_unique dd), of_nat (profile_draws dd),
                    d_sum (map (profile_term dd) [1..<Suc (length dd)])))"
  using clp_loop_run [OF len N, of 0] by (simp add: d_sum_def)

lemma profile_unique_le_draws: "profile_unique dd \<le> profile_draws dd"
  unfolding profile_unique_def profile_draws_def by (rule unique_upto_le_draws_upto)

lemma clp_asserts:
  fixes dd :: "u32 list"
  assumes len: "length dd < 2 ^ 32 - 1" and N: "profile_draws dd < 2 ^ 32"
    and M: "unat num_balls < profile_unique dd"
  shows "calculate_log_probability dd num_balls = Some (Inl AssertionFailed)"
proof -
  have "profile_unique dd < 2 ^ 32"
    using N profile_unique_le_draws [of dd] by simp
  then have "unat (of_nat (profile_unique dd) :: u32) = profile_unique dd"
    by (rule unat_of_nat32)
  then have "\<not> (of_nat (profile_unique dd) :: u32) \<le> num_balls"
    using M by (simp add: word_le_nat_alt)
  then show ?thesis
    by (simp only: calculate_log_probability_def clp_loop_result [OF len N] option.case sum.case
        prod.case if_False)
qed

lemma clp_returns:
  fixes dd :: "u32 list"
  assumes len: "length dd < 2 ^ 32 - 1" and N: "profile_draws dd < 2 ^ 32"
    and M: "profile_unique dd \<le> unat num_balls"
  shows "calculate_log_probability dd num_balls =
         Some (Inr
           (d_sub
             (d_sub
               (d_add
                 (d_sub (lgamma (of_u32 (1 + of_nat (profile_draws dd))))
                    (d_sum (map (profile_term dd) [1..<Suc (length dd)])))
                 (lgamma (of_u32 (1 + num_balls))))
               (lgamma (of_u32 (1 + num_balls - of_nat (profile_unique dd)))))
             (d_mul (of_u32 (of_nat (profile_draws dd))) (log (of_u32 num_balls)))))"
proof -
  have "profile_unique dd < 2 ^ 32"
    using N profile_unique_le_draws [of dd] by simp
  then have "unat (of_nat (profile_unique dd) :: u32) = profile_unique dd"
    by (rule unat_of_nat32)
  then have "(of_nat (profile_unique dd) :: u32) \<le> num_balls"
    using M by (simp add: word_le_nat_alt)
  then show ?thesis
    by (simp only: calculate_log_probability_def clp_loop_result [OF len N] option.case sum.case
        prod.case if_True)
qed

lemma weighted_sum: "weighted k xs = (\<Sum>i<length xs. (k + i) * xs ! i)"
proof (induction xs arbitrary: k)
  case Nil
  show ?case
    by simp
next
  case (Cons x xs)
  have "(\<Sum>i<length (x # xs). (k + i) * (x # xs) ! i) =
      k * x + (\<Sum>i<length xs. (k + 1 + i) * xs ! i)"
    by (simp add: sum.lessThan_Suc_shift del: sum.lessThan_Suc)
  then show ?case
    by (simp add: Cons.IH)
qed

lemma profile_draws_weighted: "profile_draws dd = weighted 1 (map unat dd)"
proof -
  have "weighted 1 (map unat dd) = (\<Sum>i<length dd. (1 + i) * unat (dd ! i))"
    by (simp add: weighted_sum)
  also have "\<dots> = (\<Sum>m = 1..length dd. m * unat (dd ! (m - 1)))"
    by (rule sum.reindex_bij_witness [where i = "\<lambda>m. m - 1" and j = Suc]) auto
  finally show ?thesis
    by (simp add: profile_draws_def)
qed

lemma profile_unique_sum_list: "profile_unique dd = sum_list (map unat dd)"
proof -
  have "sum_list (map unat dd) = (\<Sum>i = 0..<length dd. unat (dd ! i))"
    by (simp add: sum_list_sum_nth)
  also have "\<dots> = (\<Sum>m = 1..length dd. unat (dd ! (m - 1)))"
    by (rule sum.reindex_bij_witness [where i = "\<lambda>m. m - 1" and j = Suc]) auto
  finally show ?thesis
    by (simp add: profile_unique_def)
qed

lemma of_u32_succ: "unat w < 2 ^ 32 - 1 \<Longrightarrow> of_u32 (1 + w) = Fin (1 + real (unat w))"
  by (simp add: of_u32_def unat_word_ariths)

lemma spec_bridge:
  fixes dd :: "u32 list"
  assumes N: "profile_draws dd < 2 ^ 32 - 1"
    and U: "profile_unique dd \<le> unat num_balls" and M: "unat num_balls < 2 ^ 32 - 1"
  shows "d_sub
             (d_sub
               (d_add
                 (d_sub (lgamma (of_u32 (1 + of_nat (profile_draws dd))))
                    (d_sum (map (profile_term dd) [1..<Suc (length dd)])))
                 (lgamma (of_u32 (1 + num_balls))))
               (lgamma (of_u32 (1 + num_balls - of_nat (profile_unique dd)))))
             (d_mul (of_u32 (of_nat (profile_draws dd))) (log (of_u32 num_balls))) =
         spec_log_probability dd (unat num_balls)"
proof -
  have N': "unat (of_nat (profile_draws dd) :: u32) = profile_draws dd"
    using N by (intro unat_of_nat32) simp
  have U': "unat (of_nat (profile_unique dd) :: u32) = profile_unique dd"
    using U M by (intro unat_of_nat32) simp
  have a: "of_u32 (1 + of_nat (profile_draws dd)) = Fin (1 + real (profile_draws dd))"
    using N N' of_u32_succ [of "of_nat (profile_draws dd)"] by simp
  have b: "of_u32 (1 + num_balls) = Fin (1 + real (unat num_balls))"
    using M by (rule of_u32_succ)
  have "unat (1 + num_balls) = 1 + unat num_balls"
    using M by (simp add: unat_word_ariths)
  moreover have "(of_nat (profile_unique dd) :: u32) \<le> 1 + num_balls"
    using U U' calculation by (simp add: word_le_nat_alt)
  ultimately have "unat (1 + num_balls - of_nat (profile_unique dd)) =
      1 + unat num_balls - profile_unique dd"
    using U' by (simp add: unat_sub)
  then have c: "of_u32 (1 + num_balls - of_nat (profile_unique dd)) =
      Fin (1 + real (unat num_balls) - real (profile_unique dd))"
    using U by (simp add: of_u32_def)
  have d: "of_u32 (of_nat (profile_draws dd)) = Fin (real (profile_draws dd))"
    by (simp only: of_u32_def N')
  have e: "of_u32 num_balls = Fin (real (unat num_balls))"
    by (simp only: of_u32_def)
  show ?thesis
    by (simp only: spec_log_probability_def a b c d e)
qed

lemma clp_formula:
  fixes dd :: "u32 list"
  assumes "length dd < 4294967295" and "profile_draws dd < 4294967295"
    and "profile_unique dd \<le> unat M" and "unat M < 4294967295"
  shows "calculate_log_probability dd M = Some (Inr (spec_log_probability dd (unat M)))"
proof -
  have len: "length dd < 2 ^ 32 - 1" and N: "profile_draws dd < 2 ^ 32 - 1"
    and N': "profile_draws dd < 2 ^ 32" and M: "unat M < 2 ^ 32 - 1"
    using assms by simp_all
  from clp_returns [OF len N' assms(3)] show ?thesis
    by (simp only: spec_bridge [OF N assms(3) M])
qed

lemma profile_unique_Nil: "profile_unique [] = 0"
  by (simp add: profile_unique_def)
lemma profile_draws_Nil: "profile_draws [] = 0"
  by (simp add: profile_draws_def)

lemma draw_balls_zero: "draw_balls lib drawer dd 0 = Some (Inr ([], drawer))"
  by (simp add: draw_balls_def draw_loop.simps)

lemma ln_abs_Gamma_Suc: "ln_abs_Gamma (real (Suc n)) = ln (fact n)"
proof -
  have "real (Suc n) \<in> \<nat>"
    by (rule of_nat_in_Nats)
  moreover have "1 \<le> real (Suc n)"
    by simp
  moreover have "nat \<lfloor>real (Suc n)\<rfloor> - 1 = n"
    by simp
  ultimately show ?thesis
    unfolding ln_abs_Gamma_def by presburger
qed

lemma lgamma_Suc: "lgamma (Fin (real (Suc n))) = Fin (ln (fact n))"
proof -
  have "\<not> real (Suc n) \<le> 0"
    by simp
  then show ?thesis
    by (simp only: lgamma.simps ln_abs_Gamma_Suc if_False simp_thms)
qed

lemma lgamma_succ: "lgamma (Fin (1 + real n)) = Fin (ln (fact n))"
  using lgamma_Suc [of n] by (simp only: of_nat_Suc)

lemma spec_log_probability_Nil:
  assumes "0 < M"
  shows "spec_log_probability [] M = Fin 0"
proof -
  have a: "lgamma (Fin (1 + real (0 :: nat))) = Fin 0"
    by (simp only: lgamma_succ) simp
  have b: "lgamma (Fin (1 + real M)) = Fin (ln (fact M))"
    by (rule lgamma_succ)
  have c: "log (Fin (real M)) = Fin (ln (real M))"
    using assms by simp
  have d: "1 + real M - real (0 :: nat) = 1 + real M"
    by simp
  have e: "d_sum (map (profile_term []) [1..<Suc (length [])]) = Fin 0"
    by (simp add: d_sum_def)
  have "spec_log_probability [] M =
      d_sub (d_sub (d_add (d_sub (Fin 0) (Fin 0)) (Fin (ln (fact M)))) (Fin (ln (fact M))))
        (d_mul (Fin (real (0 :: nat))) (Fin (ln (real M))))"
    by (simp only: spec_log_probability_def profile_draws_Nil profile_unique_Nil a d b c e)
  also have "\<dots> = Fin 0"
    by (simp add: d_sub_def)
  finally show ?thesis .
qed

lemma clp_empty:
  assumes "num_balls \<noteq> 0" and "num_balls \<noteq> 4294967295"
  shows "calculate_log_probability [] num_balls = Some (Inr (Fin 0))"
proof -
  have "unat num_balls \<noteq> unat (4294967295 :: u32)"
    using assms(2) by (simp only: word_unat_eq_iff not_False_eq_True)
  moreover have "unat num_balls < 2 ^ 32"
    using unsigned_less [of num_balls] by simp
  ultimately have M: "unat num_balls < 4294967295"
    by simp
  have pos: "0 < unat num_balls"
    using assms(1) by (simp add: unat_gt_0)
  have "calculate_log_probability [] num_balls =
      Some (Inr (spec_log_probability [] (unat num_balls)))"
    by (rule clp_formula) (simp_all add: M profile_draws_Nil profile_unique_Nil)
  then show ?thesis
    by (simp only: spec_log_probability_Nil [OF pos])
qed

section \<open>The scan and the update of a draw\<close>

lemma cum_0: "cum dd 0 = 0"
  by (simp add: cum_def)

lemma cum_Suc: "k < length dd \<Longrightarrow> cum dd (Suc k) = cum dd k + unat (dd ! k)"
  by (simp add: cum_def take_Suc_conv_app_nth)

lemma cum_length: "cum dd (length dd) = profile_unique dd"
  by (simp add: cum_def profile_unique_sum_list)

lemma cum_mono: "j \<le> k \<Longrightarrow> cum dd j \<le> cum dd k"
proof (induction k)
  case 0
  then show ?case by simp
next
  case (Suc k)
  show ?case
  proof (cases "j = Suc k")
    case True
    then show ?thesis by simp
  next
    case False
    with Suc have le: "cum dd j \<le> cum dd k"
      by simp
    show ?thesis
    proof (cases "k < length dd")
      case True
      with le show ?thesis
        by (simp add: cum_Suc)
    next
      case False
      then have "cum dd (Suc k) = cum dd k"
        by (simp add: cum_def)
      with le show ?thesis
        by simp
    qed
  qed
qed

lemma cum_le_unique: "cum dd k \<le> profile_unique dd"
proof (cases "k \<le> length dd")
  case True
  then show ?thesis
    using cum_mono [of k "length dd" dd] by (simp add: cum_length)
next
  case False
  then show ?thesis
    by (simp add: cum_def profile_unique_sum_list)
qed

lemma word_of_nat_add_unat: "(of_nat n :: u32) + w = of_nat (n + unat w)"
  by simp

lemma scan_run:
  fixes dd :: "u32 list"
  assumes len: "length dd < 2 ^ 32" and U: "profile_unique dd < 2 ^ 32"
  shows "k \<le> length dd \<Longrightarrow> \<forall>j<k. cum dd (Suc j) \<le> unat ball \<Longrightarrow>
         \<exists>b. scan dd ball (of_nat k) (of_nat (cum dd k)) = Some (Inr (of_nat b)) \<and>
             b \<le> length dd \<and> (\<forall>j<b. cum dd (Suc j) \<le> unat ball) \<and>
             (b < length dd \<longrightarrow> unat ball < cum dd (Suc b))"
proof (induction "length dd - k" arbitrary: k)
  case 0
  then have k: "k = length dd"
    by simp
  have "unat (of_nat k :: u32) = k"
    using len k by (intro unat_of_nat32) simp
  then have "\<not> unat (of_nat k :: u32) < length dd"
    using k by simp
  then have "scan dd ball (of_nat k) (of_nat (cum dd k)) = Some (Inr (of_nat k))"
    by (subst scan.simps) (simp only: if_False)
  with 0 k show ?case
    by blast
next
  case (Suc n)
  then have k: "k < length dd" and n: "n = length dd - Suc k" and k': "Suc k \<le> length dd"
    by simp_all
  have i: "unat (of_nat k :: u32) = k"
    using len k by (intro unat_of_nat32) simp
  have at: "vec_at dd k = Inr (dd ! k)"
    using k by (simp add: vec_at_def)
  have next_bin: "(of_nat k :: u32) + 1 = of_nat (Suc k)"
    by simp
  have csum: "(of_nat (cum dd k) :: u32) + dd ! k = of_nat (cum dd (Suc k))"
    by (simp only: word_of_nat_add_unat cum_Suc [OF k])
  have "cum dd (Suc k) < 2 ^ 32"
    using cum_le_unique [of dd "Suc k"] U by simp
  then have ucs: "unat (of_nat (cum dd (Suc k)) :: u32) = cum dd (Suc k)"
    by (rule unat_of_nat32)
  have less: "(ball < of_nat (cum dd (Suc k))) = (unat ball < cum dd (Suc k))"
    by (simp only: word_less_nat_alt ucs)
  have unfold: "scan dd ball (of_nat k) (of_nat (cum dd k)) =
      (if unat ball < cum dd (Suc k) then Some (Inr (of_nat k))
       else scan dd ball (of_nat (Suc k)) (of_nat (cum dd (Suc k))))"
    by (subst scan.simps) (simp only: i k if_True at sum.case csum less next_bin)
  show ?case
  proof (cases "unat ball < cum dd (Suc k)")
    case True
    with unfold Suc.prems k show ?thesis
      by (intro exI [of _ k]) simp
  next
    case False
    with Suc.prems(2) have "\<forall>j<Suc k. cum dd (Suc j) \<le> unat ball"
      by (simp add: less_Suc_eq)
    from Suc.hyps(1) [OF n k' this] False unfold show ?thesis
      by simp
  qed
qed

lemma scan_miss:
  fixes dd :: "u32 list"
  assumes len: "length dd < 2 ^ 32" and U: "profile_unique dd < 2 ^ 32"
    and miss: "profile_unique dd \<le> unat ball"
  shows "scan dd ball 0 0 = Some (Inr (of_nat (length dd)))"
proof -
  from scan_run [OF len U, of 0 ball] obtain b where
    b: "scan dd ball 0 0 = Some (Inr (of_nat b))" "b \<le> length dd"
      "b < length dd \<longrightarrow> unat ball < cum dd (Suc b)"
    by (auto simp: cum_0)
  have "\<not> b < length dd"
    using b(3) cum_le_unique [of dd "Suc b"] miss by auto
  with b show ?thesis
    by simp
qed

lemma scan_hit:
  fixes dd :: "u32 list"
  assumes len: "length dd < 2 ^ 32" and U: "profile_unique dd < 2 ^ 32"
    and hit: "unat ball < profile_unique dd"
  shows "\<exists>b<length dd. scan dd ball 0 0 = Some (Inr (of_nat b)) \<and>
           (\<forall>j<b. cum dd (Suc j) \<le> unat ball) \<and> unat ball < cum dd (Suc b)"
proof -
  from scan_run [OF len U, of 0 ball] obtain b where
    b: "scan dd ball 0 0 = Some (Inr (of_nat b))" "b \<le> length dd"
      "\<forall>j<b. cum dd (Suc j) \<le> unat ball" "b < length dd \<longrightarrow> unat ball < cum dd (Suc b)"
    by (auto simp: cum_0)
  have "b < length dd"
  proof (rule ccontr)
    assume "\<not> b < length dd"
    with b(2) have eq: "b = length dd"
      by simp
    show False
    proof (cases "length dd")
      case 0
      with hit show False
        by (simp add: profile_unique_sum_list)
    next
      case (Suc m)
      with b(3) eq have "cum dd (length dd) \<le> unat ball"
        by auto
      with hit show False
        by (simp add: cum_length)
    qed
  qed
  with b show ?thesis
    by blast
qed

lemma place_ball_miss:
  fixes dd :: "u32 list"
  assumes len: "length dd < 2 ^ 32" and U: "profile_unique dd < 2 ^ 32"
    and miss: "profile_unique dd \<le> unat ball"
  shows "place_ball dd ball = Some (Inr (new_item dd))"
proof -
  have l: "unat (of_nat (length dd) :: u32) = length dd"
    using len by (rule unat_of_nat32)
  have sel: "select_bin dd (of_nat (length dd)) = Inr (dd, 0)"
    by (simp add: select_bin_def l)
  have add: "add_ball dd 0 = Inr (new_item dd)"
    by (cases dd) (simp_all add: add_ball_def new_item_def vec_resize_def vec_incr_def)
  show ?thesis
    by (simp only: place_ball_def scan_miss [OF len U miss] option.case sum.case sel prod.case add)
qed

lemma place_ball_hit:
  fixes dd :: "u32 list"
  assumes len: "length dd < 2 ^ 32 - 1" and U: "profile_unique dd < 2 ^ 32"
    and hit: "unat ball < profile_unique dd"
  shows "\<exists>b<length dd. (\<forall>j<b. cum dd (Suc j) \<le> unat ball) \<and> unat ball < cum dd (Suc b) \<and>
           place_ball dd ball = Some (Inr (move_up dd b))"
proof -
  have len': "length dd < 2 ^ 32"
    using len by simp
  from scan_hit [OF len' U hit] obtain b where b: "b < length dd"
    and sc: "scan dd ball 0 0 = Some (Inr (of_nat b))"
    and before: "\<forall>j<b. cum dd (Suc j) \<le> unat ball" and at: "unat ball < cum dd (Suc b)"
    by blast
  have ub: "unat (of_nat b :: u32) = b"
    using b len by (intro unat_of_nat32) simp
  have usb: "unat (of_nat (Suc b) :: u32) = Suc b"
    using b len by (intro unat_of_nat32) simp
  have ussb: "unat (of_nat (Suc b) + 1 :: u32) = Suc (Suc b)"
    using b len usb by (simp add: unat_word_ariths del: of_nat_Suc)
  have next_bin: "(of_nat b :: u32) + 1 = of_nat (Suc b)"
    by simp
  have sel: "select_bin dd (of_nat b) = Inr (dd[b := dd ! b - 1], of_nat (Suc b))"
    using b by (simp add: select_bin_def ub vec_decr_def next_bin del: of_nat_Suc)
  have add: "add_ball (dd[b := dd ! b - 1]) (of_nat (Suc b)) = Inr (move_up dd b)"
  proof (cases "Suc b = length dd")
    case True
    then have L: "length dd = Suc b"
      by simp
    have r: "vec_resize (dd[b := dd ! b - 1]) (Suc (Suc b)) = dd[b := dd ! b - 1] @ [0]"
      by (simp add: vec_resize_def L)
    show ?thesis
      by (simp add: add_ball_def usb ussb L r vec_incr_def move_up_def Let_def del: of_nat_Suc)
  next
    case False
    with b have "Suc b < length (dd[b := dd ! b - 1])"
      by simp
    with False show ?thesis
      by (simp add: add_ball_def usb vec_incr_def move_up_def Let_def del: of_nat_Suc)
  qed
  have "place_ball dd ball = Some (Inr (move_up dd b))"
    by (simp only: place_ball_def sc option.case sum.case sel prod.case add)
  with b before at show ?thesis
    by blast
qed

lemma weighted_update:
  "j < length xs \<Longrightarrow> weighted k (xs[j := v]) + (k + j) * xs ! j = weighted k xs + (k + j) * v"
proof (induction xs arbitrary: j k)
  case Nil
  then show ?case by simp
next
  case (Cons x xs)
  show ?case
  proof (cases j)
    case 0
    then show ?thesis by simp
  next
    case (Suc i)
    with Cons.prems have "i < length xs"
      by simp
    from Cons.IH [OF this, of "k + 1"] Suc show ?thesis
      by simp
  qed
qed

lemma weighted_snoc: "weighted k (xs @ [v]) = weighted k xs + (k + length xs) * v"
  by (induction xs arbitrary: k) simp_all

lemma sum_list_update_nat:
  "j < length xs \<Longrightarrow> sum_list (xs[j := v]) + xs ! j = sum_list xs + v" for xs :: "nat list"
proof (induction xs arbitrary: j)
  case Nil
  then show ?case by simp
next
  case (Cons x xs)
  show ?case
  proof (cases j)
    case 0
    then show ?thesis by simp
  next
    case (Suc i)
    with Cons.prems have "i < length xs"
      by simp
    from Cons.IH [OF this] Suc show ?thesis
      by simp
  qed
qed

lemma unat_incr: "unat w < 2 ^ 32 - 1 \<Longrightarrow> unat (w + 1) = unat w + 1" for w :: u32
  by (simp add: unat_word_ariths)

lemma unat_decr: "0 < unat w \<Longrightarrow> unat (w - 1) = unat w - 1" for w :: u32
  by (simp add: unat_minus_one unat_gt_0)

lemma nth_le_unique: "j < length dd \<Longrightarrow> unat (dd ! j) \<le> profile_unique dd"
  using elem_le_sum_list [of j "map unat dd"] by (simp add: profile_unique_sum_list)

lemma new_item_facts:
  fixes dd :: "u32 list"
  assumes U: "profile_unique dd < 2 ^ 32 - 1"
  shows "profile_draws (new_item dd) = profile_draws dd + 1"
    and "profile_unique (new_item dd) = profile_unique dd + 1"
    and "length (new_item dd) \<le> Suc (length dd)"
proof -
  show "length (new_item dd) \<le> Suc (length dd)"
    by (simp add: new_item_def)
  show "profile_draws (new_item dd) = profile_draws dd + 1"
  proof (cases dd)
    case Nil
    then show ?thesis
      by (simp add: new_item_def profile_draws_weighted)
  next
    case (Cons x xs)
    then have "unat x < 2 ^ 32 - 1"
      using nth_le_unique [of 0 dd] U by simp
    then have "unat (x + 1) = unat x + 1"
      by (rule unat_incr)
    with Cons show ?thesis
      by (simp add: new_item_def profile_draws_weighted)
  qed
  show "profile_unique (new_item dd) = profile_unique dd + 1"
  proof (cases dd)
    case Nil
    then show ?thesis
      by (simp add: new_item_def profile_unique_sum_list)
  next
    case (Cons x xs)
    then have "unat x < 2 ^ 32 - 1"
      using nth_le_unique [of 0 dd] U by simp
    then have "unat (x + 1) = unat x + 1"
      by (rule unat_incr)
    with Cons show ?thesis
      by (simp add: new_item_def profile_unique_sum_list)
  qed
qed

lemma nat_move_up_sums:
  assumes b: "b < length ws" and pos: "0 < ws ! b"
  shows "sum_list (nat_move_up ws b) = sum_list ws"
    and "weighted 1 (nat_move_up ws b) = weighted 1 ws + 1"
proof -
  define ws1 where "ws1 = ws[b := ws ! b - 1]"
  define ws2 where "ws2 = (if Suc b = length ws then ws1 @ [0] else ws1)"
  define ws3 where "ws3 = ws2[Suc b := ws2 ! Suc b + 1]"
  have mv: "nat_move_up ws b = ws3"
    by (simp add: nat_move_up_def ws1_def ws2_def ws3_def Let_def)
  have sb2: "Suc b < length ws2"
    using b by (auto simp: ws2_def ws1_def)
  have s1: "sum_list ws1 + ws ! b = sum_list ws + (ws ! b - 1)"
    unfolding ws1_def using b by (rule sum_list_update_nat)
  have s2: "sum_list ws2 = sum_list ws1"
    by (simp add: ws2_def)
  have s3: "sum_list ws3 + ws2 ! Suc b = sum_list ws2 + (ws2 ! Suc b + 1)"
    unfolding ws3_def using sb2 by (rule sum_list_update_nat)
  show "sum_list (nat_move_up ws b) = sum_list ws"
    using s1 s2 s3 pos by (simp add: mv)
  have w1: "weighted 1 ws1 + (1 + b) * ws ! b = weighted 1 ws + (1 + b) * (ws ! b - 1)"
    unfolding ws1_def using b by (rule weighted_update)
  have w2: "weighted 1 ws2 = weighted 1 ws1"
    by (simp add: ws2_def weighted_snoc)
  have w3: "weighted 1 ws3 + (1 + Suc b) * ws2 ! Suc b =
      weighted 1 ws2 + (1 + Suc b) * (ws2 ! Suc b + 1)"
    unfolding ws3_def using sb2 by (rule weighted_update)
  have e: "(1 + b) * (ws ! b - 1) + (1 + b) = (1 + b) * ws ! b"
  proof -
    from pos obtain a where a: "ws ! b = Suc a"
      using gr0_implies_Suc by blast
    show ?thesis
      by (simp add: a)
  qed
  have "weighted 1 ws3 = weighted 1 ws + 1"
    using w1 w2 w3 e by (simp add: algebra_simps)
  then show "weighted 1 (nat_move_up ws b) = weighted 1 ws + 1"
    by (simp only: mv)
qed

lemma move_up_unat:
  fixes dd :: "u32 list"
  assumes b: "b < length dd" and pos: "0 < unat (dd ! b)" and U: "profile_unique dd < 2 ^ 32"
  shows "map unat (move_up dd b) = nat_move_up (map unat dd) b"
proof -
  define ws where "ws = map unat dd"
  define ws1 where "ws1 = ws[b := ws ! b - 1]"
  define ws2 where "ws2 = (if Suc b = length ws then ws1 @ [0] else ws1)"
  define dd1 where "dd1 = dd[b := dd ! b - 1]"
  define dd2 where "dd2 = (if Suc b = length dd then dd1 @ [0] else dd1)"
  have mv: "move_up dd b = dd2[Suc b := dd2 ! Suc b + 1]"
    by (simp add: move_up_def dd1_def dd2_def Let_def)
  have nmv: "nat_move_up ws b = ws2[Suc b := ws2 ! Suc b + 1]"
    by (simp add: nat_move_up_def ws1_def ws2_def Let_def)
  have bw: "b < length ws" and wb: "ws ! b = unat (dd ! b)"
    using b by (simp_all add: ws_def)
  have m1: "map unat dd1 = ws1"
    using b by (simp add: dd1_def ws1_def ws_def map_update unat_decr [OF pos])
  have m2: "map unat dd2 = ws2"
    by (simp add: dd2_def ws2_def m1) (simp add: ws_def)
  have sb2: "Suc b < length ws2"
    using bw by (auto simp: ws2_def ws1_def)
  have sbd: "Suc b < length dd2"
    using sb2 m2 [symmetric] by simp
  have s1: "sum_list ws1 + ws ! b = sum_list ws + (ws ! b - 1)"
    unfolding ws1_def using bw by (rule sum_list_update_nat)
  have s2: "sum_list ws2 = sum_list ws1"
    by (simp add: ws2_def)
  have Uws: "sum_list ws = profile_unique dd"
    by (simp add: ws_def profile_unique_sum_list)
  have "ws2 ! Suc b \<le> sum_list ws2"
    using sb2 by (rule elem_le_sum_list)
  also have "sum_list ws2 < sum_list ws"
    using s1 s2 pos wb by simp
  finally have "unat (dd2 ! Suc b) < 2 ^ 32 - 1"
    using U Uws sb2 m2 [symmetric] by simp
  then have inc: "unat (dd2 ! Suc b + 1) = unat (dd2 ! Suc b) + 1"
    by (rule unat_incr)
  have "map unat (move_up dd b) = ws2[Suc b := ws2 ! Suc b + 1]"
    using sbd by (simp add: mv map_update inc m2 [symmetric])
  then show ?thesis
    using nmv by (simp only: ws_def)
qed

lemma move_up_facts:
  fixes dd :: "u32 list"
  assumes b: "b < length dd" and pos: "0 < unat (dd ! b)" and U: "profile_unique dd < 2 ^ 32"
  shows "profile_draws (move_up dd b) = profile_draws dd + 1"
    and "profile_unique (move_up dd b) = profile_unique dd"
    and "length (move_up dd b) \<le> Suc (length dd)"
proof -
  have bw: "b < length (map unat dd)" and pw: "0 < map unat dd ! b"
    using b pos by simp_all
  show "profile_draws (move_up dd b) = profile_draws dd + 1"
    by (simp only: profile_draws_weighted move_up_unat [OF b pos U] nat_move_up_sums [OF bw pw])
  show "profile_unique (move_up dd b) = profile_unique dd"
    by (simp only: profile_unique_sum_list move_up_unat [OF b pos U] nat_move_up_sums [OF bw pw])
  show "length (move_up dd b) \<le> Suc (length dd)"
    by (simp add: move_up_def Let_def)
qed

lemma move_up_entries:
  fixes dd :: "u32 list"
  assumes b: "b < length dd" and pos: "0 < unat (dd ! b)" and U: "profile_unique dd < 2 ^ 32"
  shows "length (move_up dd b) = (if Suc b = length dd then Suc (length dd) else length dd)"
    and "unat (move_up dd b ! b) + 1 = unat (dd ! b)"
    and "unat (move_up dd b ! Suc b) = (if Suc b < length dd then unat (dd ! Suc b) else 0) + 1"
    and "\<forall>j<length dd. j \<noteq> b \<and> j \<noteq> Suc b \<longrightarrow> move_up dd b ! j = dd ! j"
proof -
  show l: "length (move_up dd b) = (if Suc b = length dd then Suc (length dd) else length dd)"
    by (simp add: move_up_def Let_def)
  have lb: "b < length (move_up dd b)" and lsb: "Suc b < length (move_up dd b)"
    using b by (simp_all add: l)
  have nth: "unat (move_up dd b ! j) = nat_move_up (map unat dd) b ! j"
    if "j < length (move_up dd b)" for j
    using nth_map [OF that, of unat] by (simp only: move_up_unat [OF b pos U])
  show "unat (move_up dd b ! b) + 1 = unat (dd ! b)"
    using b pos by (simp add: nth [OF lb] nat_move_up_def Let_def nth_append)
  show "unat (move_up dd b ! Suc b) = (if Suc b < length dd then unat (dd ! Suc b) else 0) + 1"
    using b by (auto simp: nth [OF lsb] nat_move_up_def Let_def nth_append)
  show "\<forall>j<length dd. j \<noteq> b \<and> j \<noteq> Suc b \<longrightarrow> move_up dd b ! j = dd ! j"
    by (simp add: move_up_def Let_def nth_append)
qed

lemma new_item_entries:
  fixes dd :: "u32 list"
  assumes U: "profile_unique dd < 2 ^ 32 - 1"
  shows "length (new_item dd) = max 1 (length dd)"
    and "unat (new_item dd ! 0) = (if dd = [] then 0 else unat (dd ! 0)) + 1"
    and "\<forall>j. 0 < j \<and> j < length dd \<longrightarrow> new_item dd ! j = dd ! j"
proof -
  show "length (new_item dd) = max 1 (length dd)"
    by (cases dd) (simp_all add: new_item_def)
  show "\<forall>j. 0 < j \<and> j < length dd \<longrightarrow> new_item dd ! j = dd ! j"
    by (simp add: new_item_def)
  show "unat (new_item dd ! 0) = (if dd = [] then 0 else unat (dd ! 0)) + 1"
  proof (cases dd)
    case Nil
    then show ?thesis
      by (simp add: new_item_def)
  next
    case (Cons x xs)
    then have "unat x < 2 ^ 32 - 1"
      using nth_le_unique [of 0 dd] U by simp
    then have "unat (x + 1) = unat x + 1"
      by (rule unat_incr)
    with Cons show ?thesis
      by (simp add: new_item_def)
  qed
qed

lemma place_ball_step:
  fixes dd :: "u32 list"
  assumes len: "length dd < 2 ^ 32 - 1" and W: "profile_draws dd < 2 ^ 32 - 1"
  shows "\<exists>dd'. place_ball dd ball = Some (Inr dd') \<and>
           profile_draws dd' = profile_draws dd + 1 \<and>
           length dd' \<le> Suc (length dd) \<and>
           profile_unique dd' =
             (if profile_unique dd \<le> unat ball then profile_unique dd + 1 else profile_unique dd)"
proof -
  have U: "profile_unique dd < 2 ^ 32 - 1"
    using W profile_unique_le_draws [of dd] by simp
  then have U': "profile_unique dd < 2 ^ 32"
    by simp
  have len': "length dd < 2 ^ 32"
    using len by simp
  show ?thesis
  proof (cases "profile_unique dd \<le> unat ball")
    case True
    from place_ball_miss [OF len' U' True] new_item_facts [OF U] True show ?thesis
      by simp
  next
    case False
    then have "unat ball < profile_unique dd"
      by simp
    from place_ball_hit [OF len U' this] obtain b where b: "b < length dd"
      and before: "\<forall>j<b. cum dd (Suc j) \<le> unat ball" and at: "unat ball < cum dd (Suc b)"
      and pl: "place_ball dd ball = Some (Inr (move_up dd b))"
      by blast
    have "cum dd b \<le> unat ball"
      using before by (cases b) (simp_all add: cum_0)
    with at have pos: "0 < unat (dd ! b)"
      by (simp add: cum_Suc [OF b])
    from move_up_facts [OF b pos U'] pl False show ?thesis
      by simp
  qed
qed

section \<open>The loop of \<^verbatim>\<open>draw_balls\<close>\<close>

lemma in_range_ball:
  assumes "in_range lib" and "M \<noteq> 0"
    and "uniform_int_distribution lib (0, M - 1) g = (ball, g')"
  shows "unat ball < unat M"
proof -
  have "fst (uniform_int_distribution lib (0, M - 1) g) \<le> M - 1"
    using assms(1) by (simp add: in_range_def)
  then have "ball \<le> M - 1"
    by (simp add: assms(3))
  then have "unat ball \<le> unat (M - 1)"
    by (simp add: word_le_nat_alt)
  moreover have "unat (M - 1) = unat M - 1" and "0 < unat M"
    using assms(2) by (simp_all add: unat_minus_one unat_gt_0)
  ultimately show ?thesis
    by simp
qed

lemma draw_loop_run:
  fixes lib :: "'g random_lib"
  shows "n = unat num_draws - unat draw \<Longrightarrow> draw \<le> num_draws \<Longrightarrow>
         profile_draws dd = unat draw \<Longrightarrow> length dd \<le> unat draw \<Longrightarrow>
         \<exists>dd' drawer'. draw_loop lib drawer dd draw num_draws = Some (Inr (dd', drawer')) \<and>
           profile_draws dd' = unat num_draws \<and> length dd' \<le> unat num_draws \<and>
           distribution drawer' = distribution drawer \<and>
           (in_range lib \<and> distribution drawer = (0, M - 1) \<and> M \<noteq> 0 \<and>
              profile_unique dd \<le> unat M \<longrightarrow> profile_unique dd' \<le> unat M)"
proof (induction n arbitrary: draw dd drawer)
  case 0
  then have "unat draw = unat num_draws"
    by (simp add: word_le_nat_alt)
  then have eq: "draw = num_draws"
    by (simp only: word_unat_eq_iff)
  then have "draw_loop lib drawer dd draw num_draws = Some (Inr (dd, drawer))"
    by (subst draw_loop.simps) simp
  with 0 eq show ?case
    by simp
next
  case (Suc n)
  then have lt: "unat draw < unat num_draws"
    by simp
  then have less: "draw < num_draws"
    by (simp add: word_less_nat_alt)
  have succ: "unat (draw + 1) = unat draw + 1"
    using less by (rule unat_succ_less)
  have "unat num_draws < 2 ^ 32"
    using unsigned_less [of num_draws] by simp
  with lt Suc.prems have len: "length dd < 2 ^ 32 - 1" and W: "profile_draws dd < 2 ^ 32 - 1"
    by simp_all
  obtain ball g where bg:
    "uniform_int_distribution lib (distribution drawer) (rgen drawer) = (ball, g)"
    by (cases "uniform_int_distribution lib (distribution drawer) (rgen drawer)")
  from place_ball_step [OF len W, of ball] obtain dd1 where
    pl: "place_ball dd ball = Some (Inr dd1)"
    and W1: "profile_draws dd1 = profile_draws dd + 1"
    and len1: "length dd1 \<le> Suc (length dd)"
    and U1: "profile_unique dd1 =
      (if profile_unique dd \<le> unat ball then profile_unique dd + 1 else profile_unique dd)"
    by blast
  have unfold: "draw_loop lib drawer dd draw num_draws =
      draw_loop lib (drawer\<lparr>rgen := g\<rparr>) dd1 (draw + 1) num_draws"
    by (subst draw_loop.simps) (simp only: less if_True bg prod.case pl option.case sum.case)
  have n: "n = unat num_draws - unat (draw + 1)"
    using Suc.prems(1) succ by simp
  have le: "draw + 1 \<le> num_draws"
    using lt succ by (simp add: word_le_nat_alt)
  have W1': "profile_draws dd1 = unat (draw + 1)"
    using W1 Suc.prems(3) succ by simp
  have len1': "length dd1 \<le> unat (draw + 1)"
    using len1 Suc.prems(4) succ by simp
  from Suc.IH [OF n le W1' len1', of "drawer\<lparr>rgen := g\<rparr>"] obtain dd' drawer' where
    res: "draw_loop lib (drawer\<lparr>rgen := g\<rparr>) dd1 (draw + 1) num_draws = Some (Inr (dd', drawer'))"
    and W': "profile_draws dd' = unat num_draws" and len': "length dd' \<le> unat num_draws"
    and dist: "distribution drawer' = distribution (drawer\<lparr>rgen := g\<rparr>)"
    and U': "in_range lib \<and> distribution (drawer\<lparr>rgen := g\<rparr>) = (0, M - 1) \<and> M \<noteq> 0 \<and>
      profile_unique dd1 \<le> unat M \<longrightarrow> profile_unique dd' \<le> unat M"
    by blast
  have "profile_unique dd' \<le> unat M"
    if ok: "in_range lib" "distribution drawer = (0, M - 1)" "M \<noteq> 0"
      and U: "profile_unique dd \<le> unat M"
  proof -
    have "unat ball < unat M"
      using ok(1) ok(3) bg [unfolded ok(2)] by (rule in_range_ball)
    with U1 U have "profile_unique dd1 \<le> unat M"
      by simp
    with U' ok show ?thesis
      by simp
  qed
  with unfold res W' len' dist show ?case
    by simp
qed

lemma draw_balls_run:
  fixes lib :: "'g random_lib"
  shows "\<exists>dd' drawer'. draw_balls lib drawer dd num_draws = Some (Inr (dd', drawer')) \<and>
           profile_draws dd' = unat num_draws \<and> length dd' \<le> unat num_draws \<and>
           distribution drawer' = distribution drawer \<and>
           (in_range lib \<and> distribution drawer = (0, M - 1) \<and> M \<noteq> 0 \<longrightarrow>
              profile_unique dd' \<le> unat M)"
  using draw_loop_run [of "unat num_draws" num_draws 0 "[]" lib drawer M]
  by (simp add: draw_balls_def profile_draws_Nil profile_unique_Nil)

section \<open>The loops of \<^verbatim>\<open>monte_carlo_pvalue\<close>\<close>

lemma add_score_Fin: "add_score (Fin s) (d_sub r l) = Fin (s + trial_score r l)"
  by (simp add: add_score_def trial_score_def)

lemma trial_score_range: "0 \<le> trial_score r l \<and> trial_score r l \<le> 1"
  by (simp add: trial_score_def)

lemma pvalue_num_draws_run:
  fixes dd :: "u32 list"
  assumes len: "length dd < 2 ^ 32 - 1" and N: "profile_draws dd < 2 ^ 32"
  shows "k \<le> length dd \<Longrightarrow>
         pvalue_num_draws dd (of_nat (Suc k)) (of_nat (\<Sum>m = 1..k. m * unat (dd ! (m - 1)))) =
         Some (Inr (of_nat (profile_draws dd)))"
proof (induction "length dd - k" arbitrary: k)
  case 0
  then have k: "k = length dd"
    by simp
  have "unat (of_nat (Suc k) :: u32) = Suc k"
    using len k by (intro unat_of_nat32) simp
  then have "\<not> unat (of_nat (Suc k) :: u32) \<le> length dd"
    using k by simp
  then show ?case
    by (subst pvalue_num_draws.simps) (simp only: if_False k profile_draws_def)
next
  case (Suc n)
  then have k: "k < length dd" and n: "n = length dd - Suc k" and k': "Suc k \<le> length dd"
    by simp_all
  let ?N = "\<lambda>k. \<Sum>m = 1..k. m * unat (dd ! (m - 1))"
  let ?i = "of_nat (Suc k) :: u32"
  have i: "unat ?i = Suc k"
    using len k by (intro unat_of_nat32) simp
  have i1: "unat (?i - 1) = k"
    using i by (simp add: unat_minus_one unat_eq_zero [symmetric] del: of_nat_Suc)
  have "?N (Suc k) \<le> profile_draws dd"
    unfolding profile_draws_def using k' by (rule draws_upto_mono)
  then have NS: "?N (Suc k) < 2 ^ 32"
    using N by simp
  have Nk: "?N k < 2 ^ 32"
    using NS draws_upto_mono [where k = k and n = "Suc k" and dd = dd] by simp
  have NS_eq: "?N (Suc k) = ?N k + unat (dd ! k) * Suc k"
    by simp
  have at: "vec_at dd (unat (?i - 1)) = Inr (dd ! k)"
    using k by (simp add: vec_at_def i1 del: of_nat_Suc)
  have nd: "to_u32 (d_add (of_u32 (of_nat (?N k))) (d_mul (of_u32 (dd ! k)) (of_u32 ?i))) =
      Inr (of_nat (?N (Suc k)))"
  proof -
    have "d_add (of_u32 (of_nat (?N k))) (d_mul (of_u32 (dd ! k)) (of_u32 ?i)) =
        Fin (real (?N k) + real (unat (dd ! k)) * real (Suc k))"
      by (simp only: of_u32_def unat_of_nat32 [OF Nk] i d_mul.simps d_add.simps)
    also have "\<dots> = Fin (real (?N (Suc k)))"
      by (simp only: NS_eq of_nat_add of_nat_mult)
    finally show ?thesis
      using NS by (simp only: to_u32_nat if_True)
  qed
  have next_i: "?i + 1 = of_nat (Suc (Suc k))"
    by simp
  show ?case
    apply (subst pvalue_num_draws.simps)
    apply (simp only: i k' if_True at nd sum.case next_i)
    apply (rule Suc.hyps(1) [OF n k'])
    done
qed

lemma pvalue_num_draws_result:
  fixes dd :: "u32 list"
  assumes len: "length dd < 2 ^ 32 - 1" and N: "profile_draws dd < 2 ^ 32"
  shows "pvalue_num_draws dd 1 0 = Some (Inr (of_nat (profile_draws dd)))"
  using pvalue_num_draws_run [OF len N, of 0] by simp

lemma trial_run:
  fixes lib :: "'g random_lib"
  assumes ok: "in_range lib" and dist: "distribution drawer = (0, M - 1)"
    and M: "M \<noteq> 0 \<or> N = 0" and N: "unat N < 2 ^ 32 - 1"
  shows "\<exists>dd' drawer' lp. draw_balls lib drawer dd N = Some (Inr (dd', drawer')) \<and>
           calculate_log_probability dd' M = Some (Inr lp) \<and>
           distribution drawer' = (0, M - 1)"
proof -
  from draw_balls_run [of lib drawer dd N M] obtain dd' drawer' where
    dr: "draw_balls lib drawer dd N = Some (Inr (dd', drawer'))"
    and W: "profile_draws dd' = unat N" and len: "length dd' \<le> unat N"
    and dist': "distribution drawer' = distribution drawer"
    and U: "in_range lib \<and> distribution drawer = (0, M - 1) \<and> M \<noteq> 0 \<longrightarrow>
      profile_unique dd' \<le> unat M"
    by blast
  have U': "profile_unique dd' \<le> unat M"
  proof (cases "M = 0")
    case False
    with U ok dist show ?thesis
      by simp
  next
    case True
    with M have "unat N = 0"
      by simp
    with W profile_unique_le_draws [of dd'] show ?thesis
      by simp
  qed
  have "length dd' < 2 ^ 32 - 1" and "profile_draws dd' < 2 ^ 32"
    using len W N by simp_all
  from clp_returns [OF this U'] dr dist' dist show ?thesis
    by simp
qed

lemma pvalue_loop_run:
  fixes lib :: "'g random_lib"
  assumes ok: "in_range lib" and M: "M \<noteq> 0 \<or> N = 0" and N: "unat N < 2 ^ 32 - 1"
  shows "n = unat R - unat rep \<Longrightarrow> rep \<le> R \<Longrightarrow> distribution drawer = (0, M - 1) \<Longrightarrow>
         \<exists>ts drawer'. trials lib M N drawer ts drawer' \<and> length ts = n \<and>
           pvalue_loop lib M ref N drawer dd (Fin s) rep R =
             Some (Inr (Fin (s + (\<Sum>t\<leftarrow>ts. trial_score ref (snd t)))))"
proof (induction n arbitrary: rep drawer dd s)
  case 0
  then have "unat rep = unat R"
    by (simp add: word_le_nat_alt)
  then have eq: "rep = R"
    by (simp only: word_unat_eq_iff)
  then have "pvalue_loop lib M ref N drawer dd (Fin s) rep R = Some (Inr (Fin s))"
    by (subst pvalue_loop.simps) simp
  then show ?case
    using trials_done [of lib M N drawer] by (intro exI [of _ "[]"] exI [of _ drawer]) simp
next
  case (Suc n)
  then have lt: "unat rep < unat R"
    by simp
  then have less: "rep < R"
    by (simp add: word_less_nat_alt)
  have succ: "unat (rep + 1) = unat rep + 1"
    using less by (rule unat_succ_less)
  from trial_run [OF ok Suc.prems(3) M N, of dd] obtain dd' drawer' lp where
    dr: "draw_balls lib drawer dd N = Some (Inr (dd', drawer'))"
    and lp: "calculate_log_probability dd' M = Some (Inr lp)"
    and dist': "distribution drawer' = (0, M - 1)"
    by blast
  have unfold: "pvalue_loop lib M ref N drawer dd (Fin s) rep R =
      pvalue_loop lib M ref N drawer' dd' (Fin (s + trial_score ref lp)) (rep + 1) R"
    by (subst pvalue_loop.simps)
      (simp only: less if_True dr lp option.case sum.case prod.case add_score_Fin)
  have n: "n = unat R - unat (rep + 1)"
    using Suc.prems(1) succ by simp
  have le: "rep + 1 \<le> R"
    using lt succ by (simp add: word_le_nat_alt)
  from Suc.IH [OF n le dist', of dd' "s + trial_score ref lp"] obtain ts drawer'' where
    tr: "trials lib M N drawer' ts drawer''" and l: "length ts = n"
    and res: "pvalue_loop lib M ref N drawer' dd' (Fin (s + trial_score ref lp)) (rep + 1) R =
      Some (Inr (Fin (s + trial_score ref lp + (\<Sum>t\<leftarrow>ts. trial_score ref (snd t)))))"
    by blast
  have "trials lib M N drawer ((dd', lp) # ts) drawer''"
    using dr lp tr by (rule trials_step)
  moreover have "length ((dd', lp) # ts) = Suc n"
    using l by simp
  moreover have "pvalue_loop lib M ref N drawer dd (Fin s) rep R =
      Some (Inr (Fin (s + (\<Sum>t\<leftarrow>(dd', lp) # ts. trial_score ref (snd t)))))"
    using unfold res by (simp add: add.assoc)
  ultimately show ?case
    by blast
qed

lemma profile_unique_zero: "profile_unique dd = 0 \<Longrightarrow> profile_draws dd = 0"
  by (simp add: profile_unique_def profile_draws_def)

lemma real_unat_pos: "R \<noteq> 0 \<Longrightarrow> 0 < real (unat R)" for R :: u32
proof -
  assume "R \<noteq> 0"
  then have "0 < unat R"
    by (simp add: unat_gt_0)
  then show ?thesis
    by (simp only: of_nat_0_less_iff)
qed

lemma d_div_of_u32: "R \<noteq> 0 \<Longrightarrow> d_div (Fin x) (of_u32 R) = Fin (x / real (unat R))"
  using real_unat_pos [of R] by (simp only: of_u32_def d_div.simps) simp

lemma score_bounds:
  "0 \<le> (\<Sum>t\<leftarrow>ts. trial_score r (snd t)) \<and> (\<Sum>t\<leftarrow>ts. trial_score r (snd t)) \<le> real (length ts)"
proof (induction ts)
  case Nil
  show ?case by simp
next
  case (Cons t ts)
  with trial_score_range [of r "snd t"] show ?case
    by simp
qed

lemma score_ties:
  "\<forall>t\<in>set ts. d_less (fabs (d_sub r (snd t))) (Fin (1 / 10 ^ 10)) \<Longrightarrow>
   (\<Sum>t\<leftarrow>ts. trial_score r (snd t)) = real (length ts) / 2"
  by (induction ts) (simp_all add: trial_score_def add_divide_distrib)

lemma pvalue_run:
  fixes lib :: "'g random_lib"
  assumes ok: "in_range lib" and len: "length ref_dd < 2 ^ 32 - 1"
    and N: "profile_draws ref_dd < 2 ^ 32 - 1" and U: "profile_unique ref_dd \<le> unat M"
  shows "\<exists>ref_log_p N ts drawer'.
           calculate_log_probability ref_dd M = Some (Inr ref_log_p) \<and>
           unat N = profile_draws ref_dd \<and>
           trials lib M N (new_BallDrawer lib M seed) ts drawer' \<and>
           length ts = unat R \<and>
           monte_carlo_pvalue lib ref_dd M R seed =
             Some (Inr (d_div (Fin (\<Sum>t\<leftarrow>ts. trial_score ref_log_p (snd t))) (of_u32 R)))"
proof -
  have N': "profile_draws ref_dd < 2 ^ 32"
    using N by simp
  define n :: u32 where "n = of_nat (profile_draws ref_dd)"
  have un: "unat n = profile_draws ref_dd"
    unfolding n_def using N' by (rule unat_of_nat32)
  from clp_returns [OF len N' U] obtain ref_log_p where
    ref: "calculate_log_probability ref_dd M = Some (Inr ref_log_p)"
    by blast
  have nd: "pvalue_num_draws ref_dd 1 0 = Some (Inr n)"
    unfolding n_def using len N' by (rule pvalue_num_draws_result)
  have M0: "M \<noteq> 0 \<or> n = 0"
  proof (cases "M = 0")
    case True
    with U have "profile_unique ref_dd = 0"
      by simp
    then have "profile_draws ref_dd = 0"
      by (rule profile_unique_zero)
    then show ?thesis
      by (simp add: n_def)
  next
    case False
    then show ?thesis by simp
  qed
  have un': "unat n < 2 ^ 32 - 1"
    using un N by simp
  have dist: "distribution (new_BallDrawer lib M seed) = (0, M - 1)"
    by (simp add: new_BallDrawer_def)
  have "0 \<le> R"
    by simp
  from pvalue_loop_run [OF ok M0 un' _ this dist, of "unat R" ref_log_p "vec_resize [] (unat n)" 0]
  obtain ts drawer' where tr: "trials lib M n (new_BallDrawer lib M seed) ts drawer'"
    and l: "length ts = unat R"
    and res: "pvalue_loop lib M ref_log_p n (new_BallDrawer lib M seed) (vec_resize [] (unat n))
        (Fin 0) 0 R = Some (Inr (Fin (\<Sum>t\<leftarrow>ts. trial_score ref_log_p (snd t))))"
    by auto
  have "monte_carlo_pvalue lib ref_dd M R seed =
      Some (Inr (d_div (Fin (\<Sum>t\<leftarrow>ts. trial_score ref_log_p (snd t))) (of_u32 R)))"
    by (simp only: monte_carlo_pvalue_def Let_def ref nd res option.case sum.case)
  with ref un tr l show ?thesis
    by blast
qed

lemma pvalue_no_trials:
  fixes lib :: "'g random_lib"
  assumes "length ref_dd < 4294967295"
    and "profile_draws ref_dd < 4294967296" and U: "profile_unique ref_dd \<le> unat M"
  shows "monte_carlo_pvalue lib ref_dd M 0 seed = Some (Inr NaN)"
proof -
  have len: "length ref_dd < 2 ^ 32 - 1" and N: "profile_draws ref_dd < 2 ^ 32"
    using assms by simp_all
  from clp_returns [OF len N U] obtain ref_log_p where
    ref: "calculate_log_probability ref_dd M = Some (Inr ref_log_p)"
    by blast
  have nd: "pvalue_num_draws ref_dd 1 0 = Some (Inr (of_nat (profile_draws ref_dd)))"
    using len N by (rule pvalue_num_draws_result)
  have loop: "pvalue_loop lib M ref_log_p n drawer dd (Fin 0) 0 0 = Some (Inr (Fin 0))"
    for n drawer dd
    by (subst pvalue_loop.simps) simp
  have "d_div (Fin 0) (of_u32 0) = NaN"
    by (simp add: of_u32_def)
  then show ?thesis
    by (simp only: monte_carlo_pvalue_def Let_def ref nd loop option.case sum.case)
qed

lemma example_lib_in_range: "in_range example_lib"
  by (simp add: in_range_def example_lib_def)


lemma draw_balls_example:
  "draw_balls example_lib (new_BallDrawer example_lib 3 42) [] 3 =
     Some (Inr ([0, 0, 1], \<lparr>rgen = 2479403867, distribution = (0, 2)\<rparr>))"
  by (simp add: draw_balls_def draw_loop.simps new_BallDrawer_def example_lib_def place_ball_def
      scan.simps vec_at_def select_bin_def vec_decr_def add_ball_def vec_resize_def vec_incr_def)







section \<open>The log probability: claims C1, C5 and C6\<close>

text \<open>
  Claim C1, as amended. Let \<open>dd\<close> be a profile of fewer than \<open>2 ^ 32 - 1\<close> entries
  whose number of draws \<open>N = \<Sum>\<^sub>m m \<sqdot> dd[m-1]\<close> is below \<open>2 ^ 32 - 1\<close>, and let
  \<open>U \<le> M < 2 ^ 32 - 1\<close>, where \<open>U = \<Sum>\<^sub>m dd[m-1]\<close>. Then
  \<^verbatim>\<open>calculate_log_probability(dd, M)\<close> returns exactly
  \<open>lgamma(1+N) - \<Sum>\<^sub>m [lgamma(1+dd[m-1]) + dd[m-1] \<sqdot> lgamma(1+m)] + lgamma(1+M)
     - lgamma(1+M-U) - N \<sqdot> log(M)\<close>.
\<close>

theorem log_probability_formula:
  fixes dd :: "u32 list"
  assumes "length dd < 4294967295" and "profile_draws dd < 4294967295"
    and "profile_unique dd \<le> unat M" and "unat M < 4294967295"
  shows "calculate_log_probability dd M = Some (Inr (spec_log_probability dd (unat M)))"
  using assms by (rule clp_formula)

text \<open>The formula at the profile \<open>[1, 1]\<close> (one item drawn once, one twice) and \<open>M = 3\<close>.\<close>

theorem log_probability_formula_witness:
  "calculate_log_probability [1, 1] 3 = Some (Inr (spec_log_probability [1, 1] (unat (3 :: u32))))"
proof (rule log_probability_formula)
  show "length [1, 1 :: u32] < 4294967295"
    by simp
  show "profile_draws [1, 1] < 4294967295"
    by (simp add: profile_draws_weighted)
  show "profile_unique [1, 1] \<le> unat (3 :: u32)"
    by (simp add: profile_unique_sum_list)
  show "unat (3 :: u32) < 4294967295"
    by simp
qed

text \<open>
  Claim C1 as stated fails at \<open>M = 2 ^ 32 - 1\<close>: \<^verbatim>\<open>1 + num_balls\<close> is computed in
  \<^verbatim>\<open>unsigned\<close> and wraps to 0, \<^verbatim>\<open>lgamma(0)\<close> is \<^verbatim>\<open>+inf\<close>, and the result for the
  empty profile is \<^verbatim>\<open>inf - inf\<close>, a NaN, where the formula gives 0.
\<close>

theorem log_probability_formula_counterexample:
  "calculate_log_probability [] 4294967295 = Some (Inr NaN) \<and>
   spec_log_probability [] (unat (4294967295 :: u32)) = Fin 0"
  by (simp add: calculate_log_probability_def clp_loop.simps of_u32_def d_sub_def ln_abs_Gamma_def
      spec_log_probability_def profile_draws_def profile_unique_def d_sum_def)

text \<open>
  Claim C5, as amended. For a profile of fewer than \<open>2 ^ 32 - 1\<close> entries whose number
  of draws is below \<open>2 ^ 32\<close>, \<^verbatim>\<open>calculate_log_probability(dd, M)\<close> stops in the
  assertion exactly when \<open>M < U\<close>, and returns a value whenever \<open>M \<ge> U\<close>.
\<close>

theorem log_probability_assertion:
  fixes dd :: "u32 list"
  assumes "length dd < 4294967295" and "profile_draws dd < 4294967296"
  shows "(calculate_log_probability dd M = Some (Inl AssertionFailed)) = (unat M < profile_unique dd) \<and>
         (profile_unique dd \<le> unat M \<longrightarrow> (\<exists>p. calculate_log_probability dd M = Some (Inr p)))"
proof -
  have len: "length dd < 2 ^ 32 - 1" and N: "profile_draws dd < 2 ^ 32"
    using assms by simp_all
  show ?thesis
  proof (cases "unat M < profile_unique dd")
    case True
    then show ?thesis
      using clp_asserts [OF len N True] by simp
  next
    case False
    then have "profile_unique dd \<le> unat M"
      by simp
    from clp_returns [OF len N this] False show ?thesis
      by simp
  qed
qed

text \<open>The profile \<open>[1, 1]\<close> has \<open>U = 2\<close>: the assertion fails for \<open>M = 1\<close> and holds for \<open>M = 2\<close>.\<close>

theorem log_probability_assertion_witness:
  "(calculate_log_probability [1, 1] 1 = Some (Inl AssertionFailed)) \<and>
   (\<exists>p. calculate_log_probability [1, 1] 2 = Some (Inr p))"
proof -
  have a: "length [1, 1 :: u32] < 4294967295" and b: "profile_draws [1, 1] < 4294967296"
    by (simp_all add: profile_draws_weighted)
  have "unat (1 :: u32) < profile_unique [1, 1]" and "profile_unique [1, 1] \<le> unat (2 :: u32)"
    by (simp_all add: profile_unique_sum_list)
  then show ?thesis
    using log_probability_assertion [OF a b, of 1] log_probability_assertion [OF a b, of 2]
    by blast
qed

text \<open>
  Claim C5 as stated fails where the sums leave the range of \<^verbatim>\<open>unsigned\<close>. The
  profile \<open>[2 ^ 31, 2 ^ 31]\<close> has \<open>U = 2 ^ 32 > M = 0\<close>, and the run does not stop in
  the assertion: \<^verbatim>\<open>num_unique += dd_i\<close> converts the double \<open>2 ^ 32\<close> to
  \<^verbatim>\<open>unsigned\<close>, which C++ leaves undefined, before the assertion is reached.
\<close>

theorem log_probability_assertion_counterexample:
  "unat (0 :: u32) < profile_unique [2147483648, 2147483648] \<and>
   calculate_log_probability [2147483648, 2147483648] 0 = Some (Inl ConversionOutOfRange)"
  by (simp add: profile_unique_sum_list calculate_log_probability_def clp_loop.simps of_u32_def
      vec_at_def)

text \<open>
  Claim C6, as amended. \<^verbatim>\<open>draw_balls\<close> with \<open>num_draws = 0\<close> returns the empty profile
  (whose entries sum to 0) and leaves the sampler as it was, and
  \<^verbatim>\<open>calculate_log_probability\<close> of the empty profile is exactly 0 for every \<open>M\<close> with
  \<open>1 \<le> M \<le> 2 ^ 32 - 2\<close>.
\<close>

theorem empty_profile:
  "draw_balls lib drawer dd 0 = Some (Inr ([], drawer)) \<and> profile_unique [] = 0 \<and>
   (M \<noteq> 0 \<and> M \<noteq> 4294967295 \<longrightarrow> calculate_log_probability [] M = Some (Inr (Fin 0)))"
  by (simp add: draw_balls_zero profile_unique_Nil clp_empty)

text \<open>The empty profile and \<open>M = 100\<close>, the scenario of the specification.\<close>

theorem empty_profile_witness:
  "draw_balls example_lib (new_BallDrawer example_lib 100 0) [7] 0 =
     Some (Inr ([], new_BallDrawer example_lib 100 0)) \<and>
   profile_unique [] = 0 \<and>
   calculate_log_probability [] 100 = Some (Inr (Fin 0))"
  using empty_profile [of example_lib "new_BallDrawer example_lib 100 0" "[7]" 100]
  by simp

text \<open>
  Claim C6 as stated (any \<open>M \<ge> 0\<close>) fails at \<open>M = 0\<close>: the last term is
  \<^verbatim>\<open>0 * log(0)\<close>, that is \<^verbatim>\<open>0 * -inf\<close>, a NaN.
\<close>

theorem empty_profile_counterexample:
  "calculate_log_probability [] 0 = Some (Inr NaN)"
  by (simp add: calculate_log_probability_def clp_loop.simps of_u32_def d_sub_def ln_abs_Gamma_def)

section \<open>The sampler: claims C2, C3, C9 and C10\<close>

text \<open>
  Claim C2. For every \<open>M \<ge> 1\<close>, every \<open>N\<close> and every state of the generator, on a
  library whose distribution keeps its contract, \<^verbatim>\<open>draw_balls\<close> with \<open>N\<close> draws on a
  sampler built for \<open>M\<close> items returns a profile \<open>dd\<close> with \<open>\<Sum>\<^sub>m m \<sqdot> dd[m-1] = N\<close> and
  \<open>\<Sum>\<^sub>m dd[m-1] \<le> M\<close>. The sampler is any with the distribution \<open>0 .. M - 1\<close>: the one
  \<open>new_BallDrawer lib M seed\<close> builds, in every state it reaches.
\<close>

theorem draw_conservation:
  fixes lib :: "'g random_lib"
  assumes "in_range lib" and "M \<noteq> 0" and "distribution drawer = (0, M - 1)"
  shows "\<exists>dd' drawer'. draw_balls lib drawer dd N = Some (Inr (dd', drawer')) \<and>
           profile_draws dd' = unat N \<and> profile_unique dd' \<le> unat M"
  using draw_balls_run [of lib drawer dd N M] assms by blast

text \<open>
  Three draws from three items, seed 42, on the instance of the library: all three hit
  the same item, and the profile is \<open>[0, 0, 1]\<close>.
\<close>

theorem draw_conservation_witness:
  "draw_balls example_lib (new_BallDrawer example_lib 3 42) [] 3 =
     Some (Inr ([0, 0, 1], \<lparr>rgen = 2479403867, distribution = (0, 2)\<rparr>)) \<and>
   (\<exists>dd' drawer'.
      draw_balls example_lib (new_BallDrawer example_lib 3 42) [] 3 = Some (Inr (dd', drawer')) \<and>
      profile_draws dd' = unat (3 :: u32) \<and> profile_unique dd' \<le> unat (3 :: u32))"
proof
  show "draw_balls example_lib (new_BallDrawer example_lib 3 42) [] 3 =
      Some (Inr ([0, 0, 1], \<lparr>rgen = 2479403867, distribution = (0, 2)\<rparr>))"
    by (rule draw_balls_example)
  show "\<exists>dd' drawer'.
      draw_balls example_lib (new_BallDrawer example_lib 3 42) [] 3 = Some (Inr (dd', drawer')) \<and>
      profile_draws dd' = unat (3 :: u32) \<and> profile_unique dd' \<le> unat (3 :: u32)"
    by (rule draw_conservation) (simp_all add: example_lib_in_range new_BallDrawer_def)
qed

text \<open>
  Claim C3. One iteration of the loop of \<^verbatim>\<open>draw_balls\<close>, in the state the loop has
  after \<open>draw\<close> iterations (the profile counts \<open>draw\<close> draws and is no longer than
  that), with the random value \<open>r\<close>. The iteration ends with the profile \<open>dd'\<close>
  (run alone, as the last iteration of \<open>draw + 1\<close> draws, the loop returns \<open>dd'\<close> and the
  sampler with the generator's next state), the loop goes on from \<open>dd'\<close>, and \<open>dd'\<close>
  again counts the draws made. If \<open>r \<ge> U\<close>, the sum of the entries of
  \<open>dd\<close>, then \<open>dd[0]\<close> is one more (on an empty profile it is the new entry 1) and
  no other entry changes. Otherwise there is the least index \<open>bin\<close> with
  \<open>r < dd[0] + \<dots> + dd[bin]\<close>; \<open>dd[bin]\<close> is one less, \<open>dd[bin + 1]\<close> is one more,
  the other entries are unchanged, and the profile is one entry longer exactly when
  \<open>bin + 1\<close> was its length.
\<close>

theorem draw_step:
  fixes lib :: "'g random_lib"
  assumes "draw < num_draws"
    and "profile_draws dd = unat draw" and "length dd \<le> unat draw"
    and "uniform_int_distribution lib (distribution drawer) (rgen drawer) = (r, g)"
  shows "\<exists>dd'. place_ball dd r = Some (Inr dd') \<and>
           draw_loop lib drawer dd draw (draw + 1) = Some (Inr (dd', drawer\<lparr>rgen := g\<rparr>)) \<and>
           draw_loop lib drawer dd draw num_draws =
             draw_loop lib (drawer\<lparr>rgen := g\<rparr>) dd' (draw + 1) num_draws \<and>
           profile_draws dd' = unat (draw + 1) \<and> length dd' \<le> unat (draw + 1) \<and>
           (if profile_unique dd \<le> unat r
            then length dd' = max 1 (length dd) \<and>
                 unat (dd' ! 0) = (if dd = [] then 0 else unat (dd ! 0)) + 1 \<and>
                 (\<forall>j. 0 < j \<and> j < length dd \<longrightarrow> dd' ! j = dd ! j)
            else \<exists>bin<length dd.
                   unat r < cum dd (Suc bin) \<and> (\<forall>j<bin. \<not> unat r < cum dd (Suc j)) \<and>
                   length dd' = (if Suc bin = length dd then Suc (length dd) else length dd) \<and>
                   unat (dd' ! bin) + 1 = unat (dd ! bin) \<and>
                   unat (dd' ! Suc bin) = (if Suc bin < length dd then unat (dd ! Suc bin) else 0) + 1 \<and>
                   (\<forall>j<length dd. j \<noteq> bin \<and> j \<noteq> Suc bin \<longrightarrow> dd' ! j = dd ! j))"
    (is "\<exists>dd'. ?placed dd' \<and> ?stepped dd' \<and> ?looped dd' \<and> ?draws dd' \<and> ?len dd' \<and>
        (if ?c then ?miss dd' else ?hit dd')")
proof -
  have lt: "unat draw < unat num_draws"
    using assms(1) by (simp add: word_less_nat_alt)
  have succ: "unat (draw + 1) = unat draw + 1"
    using assms(1) by (rule unat_succ_less)
  have "unat num_draws < 2 ^ 32"
    using unsigned_less [of num_draws] by simp
  with lt assms(2,3) have len: "length dd < 2 ^ 32 - 1" and W: "profile_draws dd < 2 ^ 32 - 1"
    by simp_all
  have U: "profile_unique dd < 2 ^ 32 - 1"
    using W profile_unique_le_draws [of dd] by simp
  then have U': "profile_unique dd < 2 ^ 32"
    by simp
  have len': "length dd < 2 ^ 32"
    using len by simp
  have loop: "draw_loop lib drawer dd draw num_draws =
      draw_loop lib (drawer\<lparr>rgen := g\<rparr>) dd' (draw + 1) num_draws"
    if "place_ball dd r = Some (Inr dd')" for dd'
    by (subst draw_loop.simps)
      (simp only: assms(1) if_True assms(4) prod.case that option.case sum.case)
  have one: "draw < draw + 1"
    using succ by (simp add: word_less_nat_alt)
  have stop: "draw_loop lib d xs (draw + 1) (draw + 1) = Some (Inr (xs, d))" for d xs
    by (subst draw_loop.simps) simp
  have step: "draw_loop lib drawer dd draw (draw + 1) = Some (Inr (dd', drawer\<lparr>rgen := g\<rparr>))"
    if "place_ball dd r = Some (Inr dd')" for dd'
    by (subst draw_loop.simps)
      (simp only: one if_True assms(4) prod.case that option.case sum.case stop)
  show ?thesis
  proof (cases "profile_unique dd \<le> unat r")
    case True
    have pl: "place_ball dd r = Some (Inr (new_item dd))"
      using len' U' True by (rule place_ball_miss)
    have "?draws (new_item dd)" and "?len (new_item dd)"
      using new_item_facts [OF U] assms(2,3) succ by simp_all
    moreover have m: "?miss (new_item dd)"
      using new_item_entries [OF U] by blast
    have "if ?c then ?miss (new_item dd) else ?hit (new_item dd)"
      by (subst if_P [OF True]) (rule m)
    ultimately show ?thesis
      using pl step [OF pl] loop [OF pl] by blast
  next
    case False
    then have "unat r < profile_unique dd"
      by simp
    from place_ball_hit [OF len U' this] obtain b where b: "b < length dd"
      and before: "\<forall>j<b. cum dd (Suc j) \<le> unat r" and at: "unat r < cum dd (Suc b)"
      and pl: "place_ball dd r = Some (Inr (move_up dd b))"
      by blast
    have "cum dd b \<le> unat r"
      using before by (cases b) (simp_all add: cum_0)
    with at have pos: "0 < unat (dd ! b)"
      by (simp add: cum_Suc [OF b])
    have before': "\<forall>j<b. \<not> unat r < cum dd (Suc j)"
      using before by (simp add: not_less)
    have "?draws (move_up dd b)" and "?len (move_up dd b)"
      using move_up_facts [OF b pos U'] assms(2,3) succ by simp_all
    moreover have h: "?hit (move_up dd b)"
      using b at before' move_up_entries [OF b pos U'] by blast
    have "if ?c then ?miss (move_up dd b) else ?hit (move_up dd b)"
      by (subst if_not_P [OF False]) (rule h)
    ultimately show ?thesis
      using pl step [OF pl] loop [OF pl] by blast
  qed
qed

text \<open>
  The fourth draw on the profile \<open>[1, 1]\<close> with \<open>r = 1\<close>: the scan stops at bin 1,
  the last one, and the iteration ends with the profile \<open>[1, 0, 1]\<close>.
\<close>

theorem draw_step_witness:
  "place_ball [1, 1] 1 = Some (Inr [1, 0, 1]) \<and>
   draw_loop example_lib \<lparr>rgen = 1, distribution = (0, 2)\<rparr> [1, 1] 3 4 =
     Some (Inr ([1, 0, 1], \<lparr>rgen = 1015568748, distribution = (0, 2)\<rparr>)) \<and>
   (\<exists>dd'. place_ball [1, 1] 1 = Some (Inr dd') \<and>
      draw_loop example_lib \<lparr>rgen = 1, distribution = (0, 2)\<rparr> [1, 1] 3 (3 + 1) =
        Some (Inr (dd', \<lparr>rgen = 1, distribution = (0, 2)\<rparr>\<lparr>rgen := 1015568748\<rparr>)) \<and>
      draw_loop example_lib \<lparr>rgen = 1, distribution = (0, 2)\<rparr> [1, 1] 3 4 =
        draw_loop example_lib (\<lparr>rgen = 1, distribution = (0, 2)\<rparr>\<lparr>rgen := 1015568748\<rparr>) dd' (3 + 1) 4 \<and>
      profile_draws dd' = unat (3 + 1 :: u32) \<and> length dd' \<le> unat (3 + 1 :: u32) \<and>
      (if profile_unique [1, 1] \<le> unat (1 :: u32)
       then length dd' = max 1 (length [1, 1 :: u32]) \<and>
            unat (dd' ! 0) = (if [1, 1 :: u32] = [] then 0 else unat ([1, 1 :: u32] ! 0)) + 1 \<and>
            (\<forall>j. 0 < j \<and> j < length [1, 1 :: u32] \<longrightarrow> dd' ! j = [1, 1] ! j)
       else \<exists>bin<length [1, 1 :: u32].
              unat (1 :: u32) < cum [1, 1] (Suc bin) \<and>
              (\<forall>j<bin. \<not> unat (1 :: u32) < cum [1, 1] (Suc j)) \<and>
              length dd' = (if Suc bin = length [1, 1 :: u32] then Suc (length [1, 1 :: u32])
                            else length [1, 1 :: u32]) \<and>
              unat (dd' ! bin) + 1 = unat ([1, 1 :: u32] ! bin) \<and>
              unat (dd' ! Suc bin) =
                (if Suc bin < length [1, 1 :: u32] then unat ([1, 1 :: u32] ! Suc bin) else 0) + 1 \<and>
              (\<forall>j<length [1, 1 :: u32]. j \<noteq> bin \<and> j \<noteq> Suc bin \<longrightarrow> dd' ! j = [1, 1] ! j)))"
proof (intro conjI)
  show "place_ball [1, 1] 1 = Some (Inr [1, 0, 1])"
    by (simp add: place_ball_def scan.simps vec_at_def select_bin_def vec_decr_def add_ball_def
        vec_resize_def vec_incr_def)
  show "draw_loop example_lib \<lparr>rgen = 1, distribution = (0, 2)\<rparr> [1, 1] 3 4 =
      Some (Inr ([1, 0, 1], \<lparr>rgen = 1015568748, distribution = (0, 2)\<rparr>))"
    by (simp add: draw_loop.simps example_lib_def place_ball_def scan.simps vec_at_def
        select_bin_def vec_decr_def add_ball_def vec_resize_def vec_incr_def)
  show "\<exists>dd'. place_ball [1, 1] 1 = Some (Inr dd') \<and>
      draw_loop example_lib \<lparr>rgen = 1, distribution = (0, 2)\<rparr> [1, 1] 3 (3 + 1) =
        Some (Inr (dd', \<lparr>rgen = 1, distribution = (0, 2)\<rparr>\<lparr>rgen := 1015568748\<rparr>)) \<and>
      draw_loop example_lib \<lparr>rgen = 1, distribution = (0, 2)\<rparr> [1, 1] 3 4 =
        draw_loop example_lib (\<lparr>rgen = 1, distribution = (0, 2)\<rparr>\<lparr>rgen := 1015568748\<rparr>) dd' (3 + 1) 4 \<and>
      profile_draws dd' = unat (3 + 1 :: u32) \<and> length dd' \<le> unat (3 + 1 :: u32) \<and>
      (if profile_unique [1, 1] \<le> unat (1 :: u32)
       then length dd' = max 1 (length [1, 1 :: u32]) \<and>
            unat (dd' ! 0) = (if [1, 1 :: u32] = [] then 0 else unat ([1, 1 :: u32] ! 0)) + 1 \<and>
            (\<forall>j. 0 < j \<and> j < length [1, 1 :: u32] \<longrightarrow> dd' ! j = [1, 1] ! j)
       else \<exists>bin<length [1, 1 :: u32].
              unat (1 :: u32) < cum [1, 1] (Suc bin) \<and>
              (\<forall>j<bin. \<not> unat (1 :: u32) < cum [1, 1] (Suc j)) \<and>
              length dd' = (if Suc bin = length [1, 1 :: u32] then Suc (length [1, 1 :: u32])
                            else length [1, 1 :: u32]) \<and>
              unat (dd' ! bin) + 1 = unat ([1, 1 :: u32] ! bin) \<and>
              unat (dd' ! Suc bin) =
                (if Suc bin < length [1, 1 :: u32] then unat ([1, 1 :: u32] ! Suc bin) else 0) + 1 \<and>
              (\<forall>j<length [1, 1 :: u32]. j \<noteq> bin \<and> j \<noteq> Suc bin \<longrightarrow> dd' ! j = [1, 1] ! j))"
  proof (rule draw_step)
    show "(3 :: u32) < 4"
      by simp
    show "profile_draws [1, 1] = unat (3 :: u32)"
      by (simp add: profile_draws_weighted)
    show "length [1, 1 :: u32] \<le> unat (3 :: u32)"
      by simp
    show "uniform_int_distribution example_lib (distribution \<lparr>rgen = 1, distribution = (0, 2)\<rparr>)
        (rgen \<lparr>rgen = 1, distribution = (0, 2)\<rparr>) = (1, 1015568748)"
      by (simp add: example_lib_def)
  qed
qed

text \<open>
  Claim C10. \<^verbatim>\<open>draw_balls\<close> returns a profile for every number of items, every number
  of draws and every random value the library may produce (its contract is not needed):
  no read or write of the vector is out of range. An access out of range would end the
  run in \<open>IndexOutOfRange\<close>.
\<close>

theorem draw_in_bounds:
  "(\<exists>dd' drawer'. draw_balls lib drawer dd N = Some (Inr (dd', drawer'))) \<and>
   draw_balls lib drawer dd N \<noteq> Some (Inl IndexOutOfRange)"
  using draw_balls_run [of lib drawer dd N 0] by auto



section \<open>The comparator: claims C4, C7 and C8\<close>

text \<open>
  Claim C4, as amended. For a reference profile whose sums fit (fewer than
  \<open>2 ^ 32 - 1\<close> entries, \<open>N < 2 ^ 32 - 1\<close>, \<open>U \<le> M\<close>), on a library whose distribution
  keeps its contract, \<^verbatim>\<open>monte_carlo_pvalue\<close> computes \<open>ref_log_p\<close> with
  \<^verbatim>\<open>calculate_log_probability\<close>, derives \<open>N = \<Sum>\<^sub>m m \<sqdot> ref_dd[m-1]\<close>, runs \<open>R\<close> trials of
  \<open>N\<close> draws on one sampler built once from the seed, and returns the sum of the
  trials' scores (0.5 for a tie within \<open>1e-10\<close>, 1 for a positive difference, 0
  otherwise) divided by \<open>R\<close>. When \<open>R \<ge> 1\<close> and every trial is a tie, the value is
  exactly 0.5.
\<close>

theorem estimate_pvalue_computes:
  fixes lib :: "'g random_lib"
  assumes "in_range lib" and "length ref_dd < 4294967295"
    and "profile_draws ref_dd < 4294967295" and "profile_unique ref_dd \<le> unat M"
  shows "\<exists>ref_log_p N ts drawer'.
           calculate_log_probability ref_dd M = Some (Inr ref_log_p) \<and>
           unat N = profile_draws ref_dd \<and>
           trials lib M N (new_BallDrawer lib M seed) ts drawer' \<and>
           length ts = unat R \<and>
           monte_carlo_pvalue lib ref_dd M R seed =
             Some (Inr (d_div (Fin (\<Sum>t\<leftarrow>ts. trial_score ref_log_p (snd t))) (of_u32 R))) \<and>
           (R \<noteq> 0 \<and> (\<forall>t\<in>set ts. d_less (fabs (d_sub ref_log_p (snd t))) (Fin (1 / 10 ^ 10))) \<longrightarrow>
              monte_carlo_pvalue lib ref_dd M R seed = Some (Inr (Fin (1 / 2))))"
proof -
  have len: "length ref_dd < 2 ^ 32 - 1" and N: "profile_draws ref_dd < 2 ^ 32 - 1"
    using assms by simp_all
  from pvalue_run [OF assms(1) len N assms(4), of seed R] obtain ref_log_p N ts drawer' where
    ref: "calculate_log_probability ref_dd M = Some (Inr ref_log_p)"
    and un: "unat N = profile_draws ref_dd"
    and tr: "trials lib M N (new_BallDrawer lib M seed) ts drawer'"
    and l: "length ts = unat R"
    and res: "monte_carlo_pvalue lib ref_dd M R seed =
      Some (Inr (d_div (Fin (\<Sum>t\<leftarrow>ts. trial_score ref_log_p (snd t))) (of_u32 R)))"
    by blast
  have "monte_carlo_pvalue lib ref_dd M R seed = Some (Inr (Fin (1 / 2)))"
    if R: "R \<noteq> 0" and ties: "\<forall>t\<in>set ts. d_less (fabs (d_sub ref_log_p (snd t))) (Fin (1 / 10 ^ 10))"
  proof -
    have "0 < real (unat R)"
      using R by (rule real_unat_pos)
    then have "real (length ts) / 2 / real (unat R) = 1 / 2"
      by (simp only: l) simp
    then show ?thesis
      by (simp only: res score_ties [OF ties] d_div_of_u32 [OF R])
  qed
  with ref un tr l res show ?thesis
    by blast
qed

text \<open>The reference profile \<open>[1, 1]\<close>, three items, five trials, seed 42.\<close>

theorem estimate_pvalue_computes_witness:
  "\<exists>ref_log_p N ts drawer'.
     calculate_log_probability [1, 1] 3 = Some (Inr ref_log_p) \<and>
     unat N = profile_draws [1, 1] \<and>
     trials example_lib 3 N (new_BallDrawer example_lib 3 42) ts drawer' \<and>
     length ts = unat (5 :: u32) \<and>
     monte_carlo_pvalue example_lib [1, 1] 3 5 42 =
       Some (Inr (d_div (Fin (\<Sum>t\<leftarrow>ts. trial_score ref_log_p (snd t))) (of_u32 5))) \<and>
     ((5 :: u32) \<noteq> 0 \<and> (\<forall>t\<in>set ts. d_less (fabs (d_sub ref_log_p (snd t))) (Fin (1 / 10 ^ 10))) \<longrightarrow>
        monte_carlo_pvalue example_lib [1, 1] 3 5 42 = Some (Inr (Fin (1 / 2))))"
  by (rule estimate_pvalue_computes)
    (simp_all add: example_lib_in_range profile_draws_weighted profile_unique_sum_list)

text \<open>
  Claim C4 as stated fails in two places. With \<open>R = 0\<close> every trial (there is none)
  is a tie, and the value returned is \<^verbatim>\<open>0.0 / 0\<close>, a NaN, not 0.5. And for the
  reference profile \<open>[0, 0, 1431655766]\<close> the sum \<open>N = 3 \<sqdot> 1431655766\<close> is above
  \<open>2 ^ 32 - 1\<close>: it is not the \<open>num_draws\<close> of the code, whose conversion to
  \<^verbatim>\<open>unsigned\<close> is undefined.
\<close>

theorem estimate_pvalue_computes_counterexample:
  "monte_carlo_pvalue example_lib [1] 1 0 7 = Some (Inr NaN) \<and>
   monte_carlo_pvalue example_lib [0, 0, 1431655766] 1431655766 1 7 =
     Some (Inl ConversionOutOfRange)"
proof
  show "monte_carlo_pvalue example_lib [1] 1 0 7 = Some (Inr NaN)"
    by (rule pvalue_no_trials) (simp_all add: profile_draws_weighted profile_unique_sum_list)
  show "monte_carlo_pvalue example_lib [0, 0, 1431655766] 1431655766 1 7 =
      Some (Inl ConversionOutOfRange)"
    by (simp add: monte_carlo_pvalue_def calculate_log_probability_def clp_loop.simps of_u32_def
        vec_at_def)
qed

text \<open>
  Claim C7, as amended. \<^verbatim>\<open>monte_carlo_pvalue\<close> does not check \<open>R\<close>. With \<open>R = 0\<close>
  and a reference profile whose sums fit, it runs no trial and returns \<^verbatim>\<open>0.0 / 0\<close>, a
  NaN, as an ordinary value.
\<close>

theorem pvalue_zero_repeats:
  fixes lib :: "'g random_lib"
  assumes "length ref_dd < 4294967295" and "profile_draws ref_dd < 4294967296"
    and "profile_unique ref_dd \<le> unat M"
  shows "monte_carlo_pvalue lib ref_dd M 0 seed = Some (Inr NaN)"
  using assms by (rule pvalue_no_trials)

text \<open>The reference profile \<open>[1, 1]\<close>, three items and no trial.\<close>

theorem pvalue_zero_repeats_witness:
  "monte_carlo_pvalue example_lib [1, 1] 3 0 42 = Some (Inr NaN)"
  by (rule pvalue_zero_repeats) (simp_all add: profile_draws_weighted profile_unique_sum_list)

text \<open>
  Claim C7 as stated fails: with \<open>R = 0\<close> the run is not stopped. For the empty
  reference profile and one item it returns a NaN.
\<close>

theorem pvalue_zero_repeats_counterexample:
  "monte_carlo_pvalue example_lib [] 1 0 0 = Some (Inr NaN)"
  by (rule pvalue_no_trials) (simp_all add: profile_draws_Nil profile_unique_Nil)

text \<open>
  Claim C8, as amended. For a reference profile whose sums fit (fewer than
  \<open>2 ^ 32 - 1\<close> entries, \<open>N < 2 ^ 32 - 1\<close>), every \<open>M \<ge> U\<close>, every \<open>R \<ge> 1\<close> and
  every seed, on a library whose distribution keeps its contract,
  \<^verbatim>\<open>monte_carlo_pvalue\<close> returns a finite value in \<open>[0, 1]\<close>.
\<close>

theorem pvalue_in_unit_interval:
  fixes lib :: "'g random_lib"
  assumes "in_range lib" and "length ref_dd < 4294967295"
    and "profile_draws ref_dd < 4294967295" and "profile_unique ref_dd \<le> unat M"
    and "R \<noteq> 0"
  shows "\<exists>p. monte_carlo_pvalue lib ref_dd M R seed = Some (Inr (Fin p)) \<and> 0 \<le> p \<and> p \<le> 1"
proof -
  have len: "length ref_dd < 2 ^ 32 - 1" and N: "profile_draws ref_dd < 2 ^ 32 - 1"
    using assms by simp_all
  from pvalue_run [OF assms(1) len N assms(4), of seed R]
  obtain ref_log_p and ts :: "(u32 list \<times> double) list" where
    l: "length ts = unat R"
    and res: "monte_carlo_pvalue lib ref_dd M R seed =
      Some (Inr (d_div (Fin (\<Sum>t\<leftarrow>ts. trial_score ref_log_p (snd t))) (of_u32 R)))"
    by blast
  let ?s = "\<Sum>t\<leftarrow>ts. trial_score ref_log_p (snd t)"
  have pos: "0 < real (unat R)"
    using assms(5) by (rule real_unat_pos)
  have "0 \<le> ?s" and "?s \<le> real (unat R)"
    using score_bounds [of ref_log_p ts] by (simp_all only: l)
  then have "0 \<le> ?s / real (unat R)" and "?s / real (unat R) \<le> 1"
    using pos by simp_all
  moreover have "monte_carlo_pvalue lib ref_dd M R seed = Some (Inr (Fin (?s / real (unat R))))"
    by (simp only: res d_div_of_u32 [OF assms(5)])
  ultimately show ?thesis
    by blast
qed

text \<open>The reference profile \<open>[1, 1]\<close>, three items, five trials, seed 42.\<close>

theorem pvalue_in_unit_interval_witness:
  "\<exists>p. monte_carlo_pvalue example_lib [1, 1] 3 5 42 = Some (Inr (Fin p)) \<and> 0 \<le> p \<and> p \<le> 1"
  by (rule pvalue_in_unit_interval)
    (simp_all add: example_lib_in_range profile_draws_weighted profile_unique_sum_list)

text \<open>
  Claim C8 as stated fails where \<open>N\<close> leaves the range of \<^verbatim>\<open>unsigned\<close>. The profile
  \<open>[0, 2 ^ 31]\<close> has \<open>U = 2 ^ 31 \<le> M = 2 ^ 31\<close> and \<open>N = 2 ^ 32\<close>:
  \<^verbatim>\<open>num_draws += dd_i * i\<close> converts the double \<open>2 ^ 32\<close> to \<^verbatim>\<open>unsigned\<close>, which C++
  leaves undefined, and no value is returned.
\<close>

theorem pvalue_in_unit_interval_counterexample:
  "profile_unique [0, 2147483648] \<le> unat (2147483648 :: u32) \<and>
   monte_carlo_pvalue example_lib [0, 2147483648] 2147483648 1 0 = Some (Inl ConversionOutOfRange)"
  by (simp add: profile_unique_sum_list monte_carlo_pvalue_def calculate_log_probability_def
      clp_loop.simps of_u32_def vec_at_def)

end
